theory Spec2Isabelle
  imports Main
begin

section \<open>Strings\<close>

text \<open>
  A string is a list of characters (bytes of its UTF-8 encoding). The helpers below are
  the JavaScript string operations the sources use.
\<close>

abbreviation dq :: string where "dq \<equiv> [CHR 0x22]"
abbreviation sq :: string where "sq \<equiv> [CHR 0x27]"
abbreviation nl :: string where "nl \<equiv> [CHR 0x0A]"
abbreviation emdash :: string where "emdash \<equiv> [CHR 0xE2, CHR 0x80, CHR 0x94]"

definition isSpace :: "char \<Rightarrow> bool" where
  "isSpace c = (c \<in> set [CHR 0x20, CHR 0x09, CHR 0x0A, CHR 0x0B, CHR 0x0C, CHR 0x0D])"

text \<open>\<open>String.prototype.trim\<close>, on the ASCII white space and line terminators.\<close>

definition trim :: "string \<Rightarrow> string" where
  "trim s = rev (dropWhile isSpace (rev (dropWhile isSpace s)))"

text \<open>\<open>s.split(":")\<close>: the pieces between the separators, at least one piece.\<close>

fun splitOn :: "char \<Rightarrow> string \<Rightarrow> string list" where
  "splitOn c [] = [[]]"
| "splitOn c (x # xs) =
     (if x = c then [] # splitOn c xs
      else (case splitOn c xs of [] \<Rightarrow> [[x]] | p # ps \<Rightarrow> (x # p) # ps))"

text \<open>\<open>xs.join(sep)\<close>.\<close>

fun joinWith :: "string \<Rightarrow> string list \<Rightarrow> string" where
  "joinWith sep [] = []"
| "joinWith sep [x] = x"
| "joinWith sep (x # y # ys) = x @ sep @ joinWith sep (y # ys)"

text \<open>
  The quoting of a string by \<open>JSON.stringify\<close>: the quote and the backslash are escaped,
  control characters are written in their short or \<open>\u00XX\<close> form.
\<close>

definition hexDigit :: "nat \<Rightarrow> char" where
  "hexDigit n = ''0123456789abcdef'' ! (n mod 16)"

definition jsonEscape :: "char \<Rightarrow> string" where
  "jsonEscape c =
     (if c = CHR 0x22 then [CHR 0x5C, CHR 0x22]
      else if c = CHR 0x5C then [CHR 0x5C, CHR 0x5C]
      else if c = CHR 0x08 then [CHR 0x5C, CHR ''b'']
      else if c = CHR 0x0C then [CHR 0x5C, CHR ''f'']
      else if c = CHR 0x0A then [CHR 0x5C, CHR ''n'']
      else if c = CHR 0x0D then [CHR 0x5C, CHR ''r'']
      else if c = CHR 0x09 then [CHR 0x5C, CHR ''t'']
      else if (of_char c :: nat) < 32
        then [CHR 0x5C, CHR ''u'', CHR ''0'', CHR ''0'',
              hexDigit ((of_char c :: nat) div 16), hexDigit (of_char c :: nat)]
      else [c])"

definition jsonQuote :: "string \<Rightarrow> string" where
  "jsonQuote s = dq @ concat (map jsonEscape s) @ dq"

text \<open>Lower case on the ASCII letters, for the example hosts.\<close>

definition asciiLower :: "string \<Rightarrow> string" where
  "asciiLower s =
     map (\<lambda>c. case map_of (zip ''ABCDEFGHIJKLMNOPQRSTUVWXYZ'' ''abcdefghijklmnopqrstuvwxyz'') c of
                Some d \<Rightarrow> d
              | None \<Rightarrow> c) s"

section \<open>The object store\<close>

text \<open>
  A configuration is a JavaScript object graph. A value is a primitive or a reference
  to an object of the store; an object is a plain object (its properties in insertion
  order) or an array (its elements, and its other own properties). The store is the list
  of all objects, a reference is an index into it, and a new object goes to the end.
  Numbers are kept as integers.
\<close>

datatype val = JUndefined | JNull | JBool bool | JNum int | JStr string | JRef nat

datatype obj = Object "(string \<times> val) list" | Array "val list" "(string \<times> val) list"

type_synonym store = "obj list"

text \<open>
  What can go wrong in the command: a \<open>TypeError\<close> of the engine (a property of
  \<open>undefined\<close> or \<open>null\<close> is read, a property of a primitive is written in strict mode, a
  value that is not a function is called), and a rejection by the configuration writer.
\<close>

datatype jsError = TypeError | Rejected string

fun properties :: "obj \<Rightarrow> (string \<times> val) list" where
  "properties (Object ps) = ps"
| "properties (Array xs ps) = ps"

text \<open>\<open>v ?? d\<close> takes \<open>d\<close> when \<open>v\<close> is nullish; \<open>!v\<close> negates the truthiness of \<open>v\<close>.\<close>

fun nullish :: "val \<Rightarrow> bool" where
  "nullish JUndefined = True"
| "nullish JNull = True"
| "nullish v = False"

fun truthy :: "val \<Rightarrow> bool" where
  "truthy JUndefined = False"
| "truthy JNull = False"
| "truthy (JBool b) = b"
| "truthy (JNum n) = (n \<noteq> 0)"
| "truthy (JStr s) = (s \<noteq> [])"
| "truthy (JRef a) = True"

text \<open>
  \<open>v.k\<close> for one of the fixed keys the command reads (none of them is an index, a
  length or a method name): a \<open>TypeError\<close> on \<open>undefined\<close> and \<open>null\<close>, \<open>undefined\<close> on the
  other primitives and on a missing property. A reference outside the store does not
  occur in a program; it is treated as an error.
\<close>

fun getProp :: "store \<Rightarrow> val \<Rightarrow> string \<Rightarrow> jsError + val" where
  "getProp st JUndefined k = Inl TypeError"
| "getProp st JNull k = Inl TypeError"
| "getProp st (JRef a) k =
     (if a < length st
      then Inr (case map_of (properties (st ! a)) k of None \<Rightarrow> JUndefined | Some x \<Rightarrow> x)
      else Inl TypeError)"
| "getProp st v k = Inr JUndefined"

text \<open>
  \<open>v.k = x\<close>: the property keeps its place when it exists and is added at the end
  otherwise; on a primitive the assignment throws (the module is in strict mode).
\<close>

fun putProp :: "string \<Rightarrow> val \<Rightarrow> (string \<times> val) list \<Rightarrow> (string \<times> val) list" where
  "putProp k x [] = [(k, x)]"
| "putProp k x ((k', x') # ps) =
     (if k' = k then (k, x) # ps else (k', x') # putProp k x ps)"

fun withProp :: "string \<Rightarrow> val \<Rightarrow> obj \<Rightarrow> obj" where
  "withProp k x (Object ps) = Object (putProp k x ps)"
| "withProp k x (Array xs ps) = Array xs (putProp k x ps)"

fun setProp :: "store \<Rightarrow> val \<Rightarrow> string \<Rightarrow> val \<Rightarrow> jsError + store" where
  "setProp st (JRef a) k x =
     (if a < length st then Inr (st[a := withProp k x (st ! a)]) else Inl TypeError)"
| "setProp st v k x = Inl TypeError"

text \<open>
  \<open>structuredClone(v)\<close>: every object that \<open>v\<close> reaches gets a copy, and the references
  inside the copies lead to copies, so the result is a graph of the same shape (shared
  and cyclic parts included) that has no object in common with the original. The
  embedding copies every object of the store: the copy of the object at \<open>a\<close> is at
  \<open>a + length st\<close>, with each of its references moved by \<open>length st\<close>. The copies of
  objects that \<open>v\<close> does not reach are referenced by nothing the program holds. None of
  the values of the store is one the algorithm refuses (a function, a symbol).
\<close>

fun shiftVal :: "nat \<Rightarrow> val \<Rightarrow> val" where
  "shiftVal n (JRef a) = JRef (a + n)"
| "shiftVal n v = v"

definition shiftProps :: "nat \<Rightarrow> (string \<times> val) list \<Rightarrow> (string \<times> val) list" where
  "shiftProps n ps = map (\<lambda>(k, x). (k, shiftVal n x)) ps"

fun shiftObj :: "nat \<Rightarrow> obj \<Rightarrow> obj" where
  "shiftObj n (Object ps) = Object (shiftProps n ps)"
| "shiftObj n (Array xs ps) = Array (map (shiftVal n) xs) (shiftProps n ps)"

definition structuredClone :: "store \<Rightarrow> val \<Rightarrow> val \<times> store" where
  "structuredClone st v = (shiftVal (length st) v, st @ map (shiftObj (length st)) st)"

text \<open>
  The statements of \<open>applyBackend\<close> run in sequence on the store and stop at the first
  error: a computation takes the store and returns its result, or the error, with the
  store it leaves.
\<close>

type_synonym 'a js = "store \<Rightarrow> (jsError + 'a) \<times> store"

definition returnJ :: "'a \<Rightarrow> 'a js" where
  "returnJ x st = (Inr x, st)"

definition bindJ :: "'a js \<Rightarrow> ('a \<Rightarrow> 'b js) \<Rightarrow> 'b js" where
  "bindJ m f st = (case m st of (Inl e, st1) \<Rightarrow> (Inl e, st1) | (Inr x, st1) \<Rightarrow> f x st1)"

definition getP :: "val \<Rightarrow> string \<Rightarrow> val js" where
  "getP v k st = (getProp st v k, st)"

definition setP :: "val \<Rightarrow> string \<Rightarrow> val \<Rightarrow> unit js" where
  "setP v k x st = (case setProp st v k x of Inl e \<Rightarrow> (Inl e, st) | Inr st1 \<Rightarrow> (Inr (), st1))"

text \<open>An object or array literal: a new object at the end of the store.\<close>

definition newObject :: "obj \<Rightarrow> val js" where
  "newObject ob st = (Inr (JRef (length st)), st @ [ob])"

text \<open>\<open>v ?? {}\<close> and \<open>v ?? []\<close>: the literal is evaluated only when \<open>v\<close> is nullish.\<close>

definition orNew :: "val \<Rightarrow> obj \<Rightarrow> val js" where
  "orNew v ob = (if nullish v then newObject ob else returnJ v)"

text \<open>
  \<open>list.find((e) => normalizeAgentId(typeof e.id === "string" ? e.id : "") === agentId)\<close>:
  the first element that matches, \<open>undefined\<close> when none does. The callback reads \<open>e.id\<close>,
  which throws on a \<open>null\<close> or \<open>undefined\<close> element. Only an array without an own \<open>find\<close>
  property has the method.
\<close>

fun findEntry :: "(string \<Rightarrow> string) \<Rightarrow> store \<Rightarrow> val list \<Rightarrow> string \<Rightarrow> jsError + val" where
  "findEntry norm st [] agentId = Inr JUndefined"
| "findEntry norm st (e # es) agentId =
     (case getProp st e ''id'' of
        Inl err \<Rightarrow> Inl err
      | Inr idv \<Rightarrow>
          if norm (case idv of JStr s \<Rightarrow> s | _ \<Rightarrow> []) = agentId then Inr e
          else findEntry norm st es agentId)"

fun findJ :: "(string \<Rightarrow> string) \<Rightarrow> val \<Rightarrow> string \<Rightarrow> val js" where
  "findJ norm (JRef l) agentId st =
     (if l < length st then
        (case st ! l of
           Array xs ps \<Rightarrow>
             (if map_of ps ''find'' = None then (findEntry norm st xs agentId, st)
              else (Inl TypeError, st))
         | Object ps \<Rightarrow> (Inl TypeError, st))
      else (Inl TypeError, st))"
| "findJ norm v agentId st = (Inl TypeError, st)"

text \<open>\<open>list.push(entry)\<close>, on an array without an own \<open>push\<close> property.\<close>

fun pushJ :: "val \<Rightarrow> val \<Rightarrow> unit js" where
  "pushJ (JRef l) e st =
     (if l < length st then
        (case st ! l of
           Array xs ps \<Rightarrow>
             (if map_of ps ''push'' = None then (Inr (), st[l := Array (xs @ [e]) ps])
              else (Inl TypeError, st))
         | Object ps \<Rightarrow> (Inl TypeError, st))
      else (Inl TypeError, st))"
| "pushJ v e st = (Inl TypeError, st)"

section \<open>The outside world of the backend command\<close>

text \<open>
  \<open>SandboxBackend\<close> (\<open>agents/sandbox/types.ts\<close>) is the union of the two string literals
  listed in \<open>VALID_BACKENDS\<close>.
\<close>

datatype SandboxBackend = docker | podman

fun backendName :: "SandboxBackend \<Rightarrow> string" where
  "backendName docker = ''docker''"
| "backendName podman = ''podman''"

definition VALID_BACKENDS :: "SandboxBackend list" where
  "VALID_BACKENDS = [docker, podman]"

datatype QuadletChoice = skip | install

text \<open>A prompt of \<open>@clack/prompts\<close> resolves to a value or to the cancel symbol.\<close>

datatype 'a answer = Cancelled | Answered 'a

text \<open>\<open>runExec\<close> resolves to the captured standard output or rejects with an error.\<close>

datatype execResult = Failed string | Stdout string

fun succeeded :: "execResult \<Rightarrow> bool" where
  "succeeded (Stdout out) = True"
| "succeeded (Failed err) = False"

text \<open>
  Every interaction with the outside is one event of a trace, in program order:
  external processes, the runtime's log, error and exit channels, the notes, prompts and
  banners of the prompt library, and the two calls of the configuration layer
  (\<open>writeConfigFile\<close> with the value it is given, \<open>logConfigUpdated\<close>).
\<close>

datatype event =
    Exec string "string list" nat
  | Log string
  | Error string
  | Exit int
  | Note string string
  | Intro string
  | Outro string
  | Cancel string
  | TextPrompt string string string
  | ConfirmPrompt string bool
  | SelectBackend string "(SandboxBackend \<times> string \<times> string) list" SandboxBackend
  | SelectQuadlet string "(QuadletChoice \<times> string \<times> string) list" QuadletChoice
  | WriteConfig val
  | LogConfigUpdated

text \<open>
  The host is a record of oracles. Each one answers from the history of events so far,
  so the answer to a command may depend on everything the program did before it (a user
  exists after \<open>useradd\<close> ran). \<open>osPlatform\<close>, \<open>osUsername\<close> and \<open>osHomedir\<close> are
  \<open>os.platform()\<close>, \<open>os.userInfo().username\<close> and \<open>os.homedir()\<close>; the two style functions
  are those of \<open>terminal/prompt-style.ts\<close>, and \<open>lowerCase\<close> is the engine's
  \<open>String.prototype.toLowerCase\<close>. \<open>writeOracle\<close> says whether \<open>writeConfigFile\<close> rejects
  (with which error). \<open>loadConfig\<close> is the value that \<open>loadConfig()\<close> returns, a reference
  into the store; \<open>resolveBackend st cfg agentId\<close> is
  \<open>resolveSandboxConfigForAgent(cfg, agentId).backend\<close> (\<open>agents/sandbox/config.ts\<close>), and
  \<open>normalizeAgentId\<close> is the function of \<open>routing/session-key.ts\<close>.
\<close>

record host =
  osPlatform :: string
  osUsername :: string
  osHomedir :: string
  execOracle :: "event list \<Rightarrow> string \<Rightarrow> string list \<Rightarrow> nat \<Rightarrow> execResult"
  textOracle :: "event list \<Rightarrow> string \<Rightarrow> string \<Rightarrow> string \<Rightarrow> string answer"
  confirmOracle :: "event list \<Rightarrow> string \<Rightarrow> bool \<Rightarrow> bool answer"
  backendOracle :: "event list \<Rightarrow> string \<Rightarrow> SandboxBackend answer"
  quadletOracle :: "event list \<Rightarrow> string \<Rightarrow> QuadletChoice answer"
  writeOracle :: "event list \<Rightarrow> val \<Rightarrow> string option"
  stylePromptMessage :: "string \<Rightarrow> string"
  stylePromptTitle :: "string \<Rightarrow> string option"
  lowerCase :: "string \<Rightarrow> string"
  loadConfig :: val
  resolveBackend :: "store \<Rightarrow> val \<Rightarrow> string option \<Rightarrow> SandboxBackend"
  normalizeAgentId :: "string \<Rightarrow> string"

definition runExec ::
  "host \<Rightarrow> event list \<Rightarrow> string \<Rightarrow> string list \<Rightarrow> nat \<Rightarrow> execResult \<times> event list" where
  "runExec h tr cmd args timeoutMs =
     (execOracle h tr cmd args timeoutMs, tr @ [Exec cmd args timeoutMs])"

definition log :: "event list \<Rightarrow> string \<Rightarrow> event list" where
  "log tr msg = tr @ [Log msg]"

definition error :: "event list \<Rightarrow> string \<Rightarrow> event list" where
  "error tr msg = tr @ [Error msg]"

definition clackNote :: "event list \<Rightarrow> string \<Rightarrow> string \<Rightarrow> event list" where
  "clackNote tr msg title = tr @ [Note msg title]"

definition cancel :: "event list \<Rightarrow> string \<Rightarrow> event list" where
  "cancel tr msg = tr @ [Cancel msg]"

definition clackText ::
  "host \<Rightarrow> event list \<Rightarrow> string \<Rightarrow> string \<Rightarrow> string \<Rightarrow> string answer \<times> event list" where
  "clackText h tr message initialValue placeholder =
     (textOracle h tr message initialValue placeholder,
      tr @ [TextPrompt message initialValue placeholder])"

definition clackConfirm ::
  "host \<Rightarrow> event list \<Rightarrow> string \<Rightarrow> bool \<Rightarrow> bool answer \<times> event list" where
  "clackConfirm h tr message initialValue =
     (confirmOracle h tr message initialValue, tr @ [ConfirmPrompt message initialValue])"

definition clackSelectBackend ::
  "host \<Rightarrow> event list \<Rightarrow> string \<Rightarrow> (SandboxBackend \<times> string \<times> string) list \<Rightarrow>
   SandboxBackend \<Rightarrow> SandboxBackend answer \<times> event list" where
  "clackSelectBackend h tr message options initialValue =
     (backendOracle h tr message, tr @ [SelectBackend message options initialValue])"

definition clackSelectQuadlet ::
  "host \<Rightarrow> event list \<Rightarrow> string \<Rightarrow> (QuadletChoice \<times> string \<times> string) list \<Rightarrow>
   QuadletChoice \<Rightarrow> QuadletChoice answer \<times> event list" where
  "clackSelectQuadlet h tr message options initialValue =
     (quadletOracle h tr message, tr @ [SelectQuadlet message options initialValue])"

section \<open>Podman host detection\<close>

definition isBackendAvailable :: "host \<Rightarrow> event list \<Rightarrow> SandboxBackend \<Rightarrow> bool \<times> event list" where
  "isBackendAvailable h tr backend =
     (let (r, tr1) = runExec h tr (backendName backend) [''version''] 5000
      in (succeeded r, tr1))"

record SubidInfo =
  hasSubuid :: bool
  hasSubgid :: bool
  subuidRange :: "string option"
  subgidRange :: "string option"

record PodmanHostInfo = SubidInfo +
  podmanAvailable :: bool
  user :: string
  userExists :: bool
  systemdAvailable :: bool
  quadletInstalled :: bool
  platform :: string

text \<open>
  The \<open>grep\<close> of one mapping file for the line of a user: the block that
  \<open>detectPodmanHost\<close> and \<open>checkSubids\<close> each run once for \<open>/etc/subuid\<close> and once for
  \<open>/etc/subgid\<close>. The result is the pair of the flag and the range.
\<close>

definition grepSubid ::
  "host \<Rightarrow> event list \<Rightarrow> string \<Rightarrow> string \<Rightarrow> (bool \<times> string option) \<times> event list" where
  "grepSubid h tr usr file =
     (let (r, tr1) = runExec h tr ''grep'' [''^'' @ usr @ '':'', file] 3000
      in case r of
           Failed err \<Rightarrow> ((False, None), tr1)
         | Stdout out \<Rightarrow>
             (let line = trim out
              in if line \<noteq> [] then ((True, Some line), tr1) else ((False, None), tr1)))"

definition detectQuadlet ::
  "host \<Rightarrow> event list \<Rightarrow> string \<Rightarrow> string \<Rightarrow> bool \<times> event list" where
  "detectQuadlet h tr usr currentUser =
     (let (home, tr1) =
            (if usr = currentUser then (Stdout (osHomedir h), tr)
             else (let (r, t) = runExec h tr ''bash'' [''-c'', ''echo ~'' @ usr] 3000
                   in (case r of Failed err \<Rightarrow> (Failed err, t)
                       | Stdout out \<Rightarrow> (Stdout (trim out), t))))
      in case home of
           Failed err \<Rightarrow> (False, tr1)
         | Stdout homeDir \<Rightarrow>
             (let quadletPath = homeDir @ ''/.config/containers/systemd/openclaw.container'';
                  (r, tr2) = runExec h tr1 ''test'' [''-f'', quadletPath] 3000
              in (succeeded r, tr2)))"

definition detectPodmanHost :: "host \<Rightarrow> event list \<Rightarrow> PodmanHostInfo \<times> event list" where
  "detectPodmanHost h tr0 =
     (let plat = osPlatform h;
          currentUser = osUsername h;
          (podmanOk, tr1) = isBackendAvailable h tr0 podman;
          (r2, tr2) = runExec h tr1 ''id'' [''-u'', ''openclaw''] 3000;
          usr = (if succeeded r2 then ''openclaw'' else currentUser);
          ((hasUid, uidRange), tr3) =
             (if plat = ''linux'' then grepSubid h tr2 usr ''/etc/subuid''
              else ((False, None), tr2));
          ((hasGid, gidRange), tr4) =
             (if plat = ''linux'' then grepSubid h tr3 usr ''/etc/subgid''
              else ((False, None), tr3));
          (r5, tr5) = runExec h tr4 ''id'' [''-u'', usr] 3000;
          exists = succeeded r5;
          (r6, tr6) = runExec h tr5 ''systemctl'' [''--version''] 3000;
          systemd = succeeded r6;
          (quadlet, tr7) =
             (if systemd \<and> exists then detectQuadlet h tr6 usr currentUser
              else (False, tr6))
      in (\<lparr>hasSubuid = hasUid, hasSubgid = hasGid,
           subuidRange = uidRange, subgidRange = gidRange,
           podmanAvailable = podmanOk, user = usr, userExists = exists,
           systemdAvailable = systemd, quadletInstalled = quadlet, platform = plat\<rparr>,
          tr7))"

definition formatDetectionSummary :: "PodmanHostInfo \<Rightarrow> string" where
  "formatDetectionSummary info =
     joinWith nl
       ([''Platform:  '' @ platform info,
         ''Podman:    '' @ (if podmanAvailable info then ''installed'' else ''not found''),
         ''User:      '' @ user info @ (if userExists info then [] else '' (does not exist)'')]
        @ (if platform info = ''linux''
           then [''subuid:    '' @ (if hasSubuid info
                                    then (case subuidRange info of Some r \<Rightarrow> r
                                          | None \<Rightarrow> ''undefined'')
                                    else ''not configured''),
                 ''subgid:    '' @ (if hasSubgid info
                                    then (case subgidRange info of Some r \<Rightarrow> r
                                          | None \<Rightarrow> ''undefined'')
                                    else ''not configured'')]
           else [])
        @ (if systemdAvailable info
           then [''Quadlet:   '' @ (if quadletInstalled info then ''installed''
                                    else ''not installed'')]
           else []))"

text \<open>\<open>parseSubidRange\<close>: the second and third field of \<open>user:start:count\<close>.\<close>

definition parseSubidRange :: "string \<Rightarrow> (string \<times> string) option" where
  "parseSubidRange line =
     (let parts = splitOn (CHR '':'') line
      in if length parts \<ge> 3 then Some (parts ! 1, parts ! 2) else None)"

definition checkSubids :: "host \<Rightarrow> event list \<Rightarrow> string \<Rightarrow> SubidInfo \<times> event list" where
  "checkSubids h tr usr =
     (let ((hasUid, uidRange), tr1) = grepSubid h tr usr ''/etc/subuid'';
          ((hasGid, gidRange), tr2) = grepSubid h tr1 usr ''/etc/subgid''
      in (\<lparr>hasSubuid = hasUid, hasSubgid = hasGid,
           subuidRange = uidRange, subgidRange = gidRange\<rparr>, tr2))"

section \<open>The Podman provisioning wizard\<close>

text \<open>
  \<open>runPodmanSetup\<close> is one long function with early returns. It is embedded as its
  consecutive blocks, last block first; each block takes the trace so far and returns
  the trace it leaves. A block that can end the wizard early returns a \<open>step\<close>:
  \<open>Return\<close> is the source's \<open>return\<close>, \<open>Continue\<close> falls through to the next block.
\<close>

datatype step = Return "event list" | Continue "event list"

text \<open>The unit file written by the install branch (lines 434 to 460).\<close>

definition quadletContent :: "string \<Rightarrow> string" where
  "quadletContent homeDir =
     joinWith nl
       [''# OpenClaw gateway '' @ emdash @ '' Podman Quadlet (rootless)'',
        [],
        ''[Unit]'',
        ''Description=OpenClaw gateway (rootless Podman)'',
        [],
        ''[Container]'',
        ''Image=openclaw:local'',
        ''ContainerName=openclaw'',
        ''UserNS=keep-id'',
        ''Volume='' @ homeDir @ ''/.openclaw:/home/node/.openclaw'',
        ''EnvironmentFile='' @ homeDir @ ''/.openclaw/.env'',
        ''Environment=HOME=/home/node'',
        ''Environment=TERM=xterm-256color'',
        ''PublishPort=18789:18789'',
        ''PublishPort=18790:18790'',
        ''Pull=never'',
        ''Exec=node dist/index.js gateway --bind lan --port 18789'',
        [],
        ''[Service]'',
        ''TimeoutStartSec=300'',
        ''Restart=on-failure'',
        [],
        ''[Install]'',
        ''WantedBy=default.target'',
        []]"

definition reloadManually :: "string \<Rightarrow> string \<Rightarrow> string" where
  "reloadManually quadletPath podmanUser =
     ''Quadlet unit written to '' @ quadletPath @ ''. Reload manually:'' @ nl @
     ''  sudo systemctl --machine='' @ podmanUser @ ''@ --user daemon-reload'' @ nl @
     ''  sudo systemctl --machine='' @ podmanUser @ ''@ --user enable openclaw.service''"

text \<open>
  Lines 424 to 497: the \<open>try\<close> block of the install branch. The outer \<open>catch\<close> reports
  the error of the first failing command; the inner one (reload and enable) logs the
  manual commands.
\<close>

definition installQuadletUnit :: "host \<Rightarrow> string \<Rightarrow> event list \<Rightarrow> event list" where
  "installQuadletUnit h podmanUser tr =
     (let (r1, tr1) = runExec h tr ''bash'' [''-c'', ''echo ~'' @ podmanUser] 3000
      in case r1 of
           Failed err \<Rightarrow> error tr1 (''Failed to install Quadlet unit: '' @ err)
         | Stdout out \<Rightarrow>
             (let homeDir = trim out;
                  quadletDir = homeDir @ ''/.config/containers/systemd'';
                  (r2, tr2) = runExec h tr1 ''sudo''
                                [''-u'', podmanUser, ''mkdir'', ''-p'', quadletDir] 5000
              in case r2 of
                   Failed err \<Rightarrow> error tr2 (''Failed to install Quadlet unit: '' @ err)
                 | Stdout out2 \<Rightarrow>
                     (let quadletPath = quadletDir @ ''/openclaw.container'';
                          (r3, tr3) = runExec h tr2 ''sudo''
                             [''-u'', podmanUser, ''bash'', ''-c'',
                              ''cat > '' @ sq @ quadletPath @ sq @ '' <<'' @ sq @
                              ''QUADLET_EOF'' @ sq @ nl @ quadletContent homeDir @
                              ''QUADLET_EOF''] 5000
                      in case r3 of
                           Failed err \<Rightarrow>
                             error tr3 (''Failed to install Quadlet unit: '' @ err)
                         | Stdout out3 \<Rightarrow>
                             (let (r4, tr4) = runExec h tr3 ''sudo''
                                    [''systemctl'', ''--machine='' @ podmanUser @ ''@'',
                                     ''--user'', ''daemon-reload''] 10000
                              in case r4 of
                                   Failed err \<Rightarrow>
                                     log tr4 (reloadManually quadletPath podmanUser)
                                 | Stdout out4 \<Rightarrow>
                                     (let (r5, tr5) = runExec h tr4 ''sudo''
                                            [''systemctl'',
                                             ''--machine='' @ podmanUser @ ''@'',
                                             ''--user'', ''enable'', ''openclaw.service'']
                                            10000
                                      in case r5 of
                                           Failed err \<Rightarrow>
                                             log tr5 (reloadManually quadletPath podmanUser)
                                         | Stdout out5 \<Rightarrow>
                                             log tr5
                                               ''Quadlet unit installed and enabled.'')))))"

text \<open>Lines 395 to 507: the Quadlet prompt and what follows it.\<close>

definition setupQuadlet ::
  "host \<Rightarrow> PodmanHostInfo \<Rightarrow> bool \<Rightarrow> string \<Rightarrow> event list \<Rightarrow> event list" where
  "setupQuadlet h info isLinux podmanUser tr =
     (let tr1 = (if \<not> systemdAvailable info
                 then clackNote tr (''systemd not detected '' @ emdash @
                        '' Quadlet options shown for remote host setup.'') ''Quadlet''
                 else tr);
          quadletDefault = (if quadletInstalled info then ''installed'' else ''not installed'');
          (installQuadlet, tr2) =
             clackSelectQuadlet h tr1
               (stylePromptMessage h
                  (''Quadlet systemd unit (optional, currently '' @ quadletDefault @ '')''))
               [(skip, ''Skip'',
                 if quadletInstalled info then ''Keep existing Quadlet unit''
                 else ''Do not install''),
                (install, ''Install'', ''Install/overwrite rootless Podman user service'')]
               skip
      in case installQuadlet of
           Cancelled \<Rightarrow> cancel tr2 ''Cancelled.''
         | Answered choice \<Rightarrow>
             if choice = install then
               (if isLinux \<and> systemdAvailable info then installQuadletUnit h podmanUser tr2
                else
                  (let tr3 = log tr2 (nl @ ''On the target Linux host, create the Quadlet unit:'');
                       tr4 = log tr3 (''  mkdir -p ~'' @ podmanUser @ ''/.config/containers/systemd'');
                       tr5 = log tr4 (''  Copy your openclaw.container file to ~'' @ podmanUser @
                                      ''/.config/containers/systemd/openclaw.container'');
                       tr6 = log tr5 (''  sudo systemctl --machine='' @ podmanUser @
                                      ''@ --user daemon-reload'')
                   in log tr6 (''  sudo systemctl --machine='' @ podmanUser @
                               ''@ --user enable openclaw.service'')))
             else tr2)"

text \<open>
  Lines 346 to 366: the block that applies the subordinate UID range on Linux. The
  command is the in-place \<open>sed\<close> substitution when the user has a line, the append
  otherwise; a rejected command is caught and reported.
\<close>

definition applySubuid ::
  "host \<Rightarrow> string \<Rightarrow> SubidInfo \<Rightarrow> string \<Rightarrow> event list \<Rightarrow> event list" where
  "applySubuid h podmanUser subids desiredSubuid tr =
     (if \<not> hasSubuid subids \<or> subuidRange subids \<noteq> Some desiredSubuid then
        (let (r, t) =
               (if hasSubuid subids then
                  runExec h tr ''sudo''
                    [''bash'', ''-c'',
                     ''sed -i '' @ sq @ ''s/^'' @ podmanUser @ '':.*/'' @
                     desiredSubuid @ ''/'' @ sq @ '' /etc/subuid''] 10000
                else
                  runExec h tr ''sudo''
                    [''bash'', ''-c'',
                     ''echo '' @ sq @ desiredSubuid @ sq @ '' >> /etc/subuid''] 10000)
         in case r of
              Stdout out \<Rightarrow> log t (''subuid: '' @ desiredSubuid)
            | Failed err \<Rightarrow>
                log (error t (''Failed to set subuid: '' @ err))
                  (''Set manually:'' @ nl @ ''  echo '' @ sq @ desiredSubuid @ sq @
                   '' | sudo tee -a /etc/subuid''))
      else log tr (''subuid: '' @ desiredSubuid @ '' (unchanged)''))"

text \<open>Lines 368 to 388: the same block for the subordinate GID range.\<close>

definition applySubgid ::
  "host \<Rightarrow> string \<Rightarrow> SubidInfo \<Rightarrow> string \<Rightarrow> event list \<Rightarrow> event list" where
  "applySubgid h podmanUser subids desiredSubgid tr =
     (if \<not> hasSubgid subids \<or> subgidRange subids \<noteq> Some desiredSubgid then
        (let (r, t) =
               (if hasSubgid subids then
                  runExec h tr ''sudo''
                    [''bash'', ''-c'',
                     ''sed -i '' @ sq @ ''s/^'' @ podmanUser @ '':.*/'' @
                     desiredSubgid @ ''/'' @ sq @ '' /etc/subgid''] 10000
                else
                  runExec h tr ''sudo''
                    [''bash'', ''-c'',
                     ''echo '' @ sq @ desiredSubgid @ sq @ '' >> /etc/subgid''] 10000)
         in case r of
              Stdout out \<Rightarrow> log t (''subgid: '' @ desiredSubgid)
            | Failed err \<Rightarrow>
                log (error t (''Failed to set subgid: '' @ err))
                  (''Set manually:'' @ nl @ ''  echo '' @ sq @ desiredSubgid @ sq @
                   '' | sudo tee -a /etc/subgid''))
      else log tr (''subgid: '' @ desiredSubgid @ '' (unchanged)''))"

text \<open>
  Lines 341 to 393: the desired lines are composed from the user and the two answers;
  on Linux the two blocks run, \<open>/etc/subuid\<close> first; elsewhere the two manual commands
  are printed.
\<close>

definition applySubidRanges ::
  "host \<Rightarrow> bool \<Rightarrow> string \<Rightarrow> SubidInfo \<Rightarrow> string \<Rightarrow> string \<Rightarrow> event list \<Rightarrow> event list" where
  "applySubidRanges h isLinux podmanUser subids subuidValue subgidValue tr =
     (let desiredSubuid = podmanUser @ '':'' @ subuidValue;
          desiredSubgid = podmanUser @ '':'' @ subgidValue
      in if isLinux then
           (let tr1 = applySubuid h podmanUser subids desiredSubuid tr
            in applySubgid h podmanUser subids desiredSubgid tr1)
         else
           (let tr1 = log tr (nl @ ''On the target Linux host, run:'');
                tr2 = log tr1 (''  echo '' @ sq @ desiredSubuid @ sq @ '' | sudo tee -a /etc/subuid'')
            in log tr2 (''  echo '' @ sq @ desiredSubgid @ sq @ '' | sudo tee -a /etc/subgid'')))"

text \<open>
  The defaults of a range prompt (lines 304 to 306 and 323 to 325): the start and count
  of the existing line when it parses, the fixed defaults otherwise.
\<close>

definition defaultStart :: string where "defaultStart = ''100000''"
definition defaultCount :: string where "defaultCount = ''65536''"

definition rangeDefaults :: "string option \<Rightarrow> string \<times> string" where
  "rangeDefaults existingRange =
     (let existing = (case existingRange of
                        None \<Rightarrow> None
                      | Some r \<Rightarrow> if r \<noteq> [] then parseSubidRange r else None)
      in case existing of
           None \<Rightarrow> (defaultStart, defaultCount)
         | Some (start, count) \<Rightarrow> (start, count))"

text \<open>Lines 296 to 339, followed by the two blocks above.\<close>

definition setupSubids ::
  "host \<Rightarrow> PodmanHostInfo \<Rightarrow> bool \<Rightarrow> string \<Rightarrow> event list \<Rightarrow> event list" where
  "setupSubids h info isLinux podmanUser tr =
     (let (subids, tr1) =
            (if isLinux then checkSubids h tr podmanUser
             else (\<lparr>hasSubuid = False, hasSubgid = False,
                    subuidRange = None, subgidRange = None\<rparr>, tr));
          (subuidStartDefault, subuidCountDefault) = rangeDefaults (subuidRange subids);
          (subuidResult, tr2) =
             clackText h tr1
               (stylePromptMessage h
                  (''Subordinate UID range for '' @ dq @ podmanUser @ dq @ '' (start:count)''))
               (subuidStartDefault @ '':'' @ subuidCountDefault)
               (defaultStart @ '':'' @ defaultCount)
      in case subuidResult of
           Cancelled \<Rightarrow> cancel tr2 ''Cancelled.''
         | Answered uidText \<Rightarrow>
             (let subuidValue = trim uidText;
                  (subgidStartDefault, subgidCountDefault) = rangeDefaults (subgidRange subids);
                  (subgidResult, tr3) =
                     clackText h tr2
                       (stylePromptMessage h
                          (''Subordinate GID range for '' @ dq @ podmanUser @ dq @
                           '' (start:count)''))
                       (subgidStartDefault @ '':'' @ subgidCountDefault)
                       (defaultStart @ '':'' @ defaultCount)
              in case subgidResult of
                   Cancelled \<Rightarrow> cancel tr3 ''Cancelled.''
                 | Answered gidText \<Rightarrow>
                     (let subgidValue = trim gidText;
                          tr4 = applySubidRanges h isLinux podmanUser subids
                                  subuidValue subgidValue tr3
                      in setupQuadlet h info isLinux podmanUser tr4)))"

text \<open>Lines 243 to 294: the user is looked up and, on request, created (Linux only).\<close>

definition ensureUser ::
  "host \<Rightarrow> PodmanHostInfo \<Rightarrow> bool \<Rightarrow> string \<Rightarrow> event list \<Rightarrow> step" where
  "ensureUser h info isLinux podmanUser tr =
     (if isLinux then
        (let userExistsNow0 = (userExists info \<and> podmanUser = user info);
             (userExistsNow, tr1) =
                (if podmanUser \<noteq> user info then
                   (let (r, t) = runExec h tr ''id'' [''-u'', podmanUser] 3000
                    in (succeeded r, t))
                 else (userExistsNow0, tr))
         in if \<not> userExistsNow then
              (let (createUser, tr2) =
                     clackConfirm h tr1
                       (stylePromptMessage h
                          (''User '' @ dq @ podmanUser @ dq @
                           '' does not exist. Create it? (requires sudo)''))
                       True
               in case createUser of
                    Cancelled \<Rightarrow> Return (cancel tr2 ''Cancelled.'')
                  | Answered yes \<Rightarrow>
                      if yes then
                        (let (r, tr3) = runExec h tr2 ''sudo''
                               [''useradd'', ''-m'', ''-s'', ''/usr/sbin/nologin'', podmanUser]
                               30000
                         in case r of
                              Stdout out \<Rightarrow>
                                (let tr4 = log tr3 (''Created user '' @ dq @ podmanUser @ dq @ ''.'');
                                     (r5, tr5) = runExec h tr4 ''sudo''
                                        [''loginctl'', ''enable-linger'', podmanUser] 5000
                                 in Continue tr5)
                            | Failed err \<Rightarrow>
                                Return
                                  (log (error tr3 (''Failed to create user: '' @ err))
                                     ''Create the user manually and re-run this command.''))
                      else
                        Continue
                          (log tr2 (''Skipped. Create the user manually:'' @ nl @
                                    ''  sudo useradd -m -s /usr/sbin/nologin '' @ podmanUser)))
            else Continue tr1)
      else Continue tr)"

text \<open>\<open>runPodmanSetup\<close>: lines 211 to 241, then the blocks above in order.\<close>

definition runPodmanSetup :: "host \<Rightarrow> event list \<Rightarrow> event list" where
  "runPodmanSetup h tr0 =
     (let (info, tr1) = detectPodmanHost h tr0;
          tr2 = clackNote tr1 (formatDetectionSummary info) ''Podman host detection'';
          isLinux = (platform info = ''linux'');
          tr3 = (if \<not> podmanAvailable info
                 then log tr2 (''Note: Podman is not installed on this system.'' @ nl @
                               ''  Install: https://podman.io/docs/installation'')
                 else tr2);
          tr4 = (if \<not> isLinux
                 then log tr3 ''Note: Podman sandbox requires Linux. Configuring for a remote host.''
                 else tr3);
          (userResult, tr5) =
             clackText h tr4 (stylePromptMessage h ''Podman user for sandbox containers'')
               (user info) (user info)
      in case userResult of
           Cancelled \<Rightarrow> cancel tr5 ''Cancelled.''
         | Answered userText \<Rightarrow>
             (let podmanUser = (if trim userText \<noteq> [] then trim userText else user info)
              in case ensureUser h info isLinux podmanUser tr5 of
                   Return tr6 \<Rightarrow> tr6
                 | Continue tr6 \<Rightarrow> setupSubids h info isLinux podmanUser tr6))"

section \<open>The backend command\<close>

record SandboxBackendOptions =
  setOpt :: "string option"
  agentOpt :: "string option"
  jsonOpt :: bool

text \<open>An optional string is truthy when it is there and not empty.\<close>

fun given :: "string option \<Rightarrow> bool" where
  "given None = False"
| "given (Some s) = (s \<noteq> [])"

text \<open>Lines 603 to 620: the per-agent branch of \<open>applyBackend\<close>, on the clone.\<close>

definition setAgentBackend ::
  "(string \<Rightarrow> string) \<Rightarrow> val \<Rightarrow> string \<Rightarrow> SandboxBackend \<Rightarrow> unit js" where
  "setAgentBackend norm nextConfig agentId backend =
     bindJ (getP nextConfig ''agents'') (\<lambda>agents0.
     bindJ (orNew agents0 (Object [])) (\<lambda>agents.
     bindJ (setP nextConfig ''agents'' agents) (\<lambda>u1.
     bindJ (getP agents ''list'') (\<lambda>list0.
     bindJ (orNew list0 (Array [] [])) (\<lambda>agentList.
     bindJ (setP agents ''list'' agentList) (\<lambda>u2.
     bindJ (findJ norm agentList agentId) (\<lambda>found.
     bindJ (if \<not> truthy found
            then bindJ (newObject (Object [(''id'', JStr agentId)])) (\<lambda>created.
                 bindJ (pushJ agentList created) (\<lambda>u3. returnJ created))
            else returnJ found) (\<lambda>entry.
     bindJ (getP entry ''sandbox'') (\<lambda>sandbox0.
     bindJ (orNew sandbox0 (Object [])) (\<lambda>sandbox.
     bindJ (setP entry ''sandbox'' sandbox) (\<lambda>u4.
     setP sandbox ''backend'' (JStr (backendName backend)))))))))))))"

text \<open>Lines 622 to 629: the global-default branch.\<close>

definition setDefaultBackend :: "val \<Rightarrow> SandboxBackend \<Rightarrow> unit js" where
  "setDefaultBackend nextConfig backend =
     bindJ (getP nextConfig ''agents'') (\<lambda>agents0.
     bindJ (orNew agents0 (Object [])) (\<lambda>agents.
     bindJ (setP nextConfig ''agents'' agents) (\<lambda>u1.
     bindJ (getP agents ''defaults'') (\<lambda>defaults0.
     bindJ (orNew defaults0 (Object [])) (\<lambda>defaults.
     bindJ (setP agents ''defaults'' defaults) (\<lambda>u2.
     bindJ (getP defaults ''sandbox'') (\<lambda>sandbox0.
     bindJ (orNew sandbox0 (Object [])) (\<lambda>sandbox.
     bindJ (setP defaults ''sandbox'' sandbox) (\<lambda>u3.
     setP sandbox ''backend'' (JStr (backendName backend)))))))))))"

text \<open>
  \<open>applyBackend\<close> (lines 594 to 634): the clone, one of the two branches, then
  \<open>writeConfigFile(nextConfig)\<close> and, when the writer did not reject,
  \<open>logConfigUpdated\<close>. An error ends the function where it occurs.
\<close>

definition applyBackend ::
  "host \<Rightarrow> event list \<Rightarrow> store \<Rightarrow> val \<Rightarrow> string option \<Rightarrow> SandboxBackend \<Rightarrow>
   (jsError + unit) \<times> event list \<times> store" where
  "applyBackend h tr st cfg agentId backend =
     (let (nextConfig, st1) = structuredClone st cfg;
          (r, st2) =
             (case agentId of
                Some a \<Rightarrow>
                  if given agentId
                  then setAgentBackend (normalizeAgentId h) nextConfig a backend st1
                  else setDefaultBackend nextConfig backend st1
              | None \<Rightarrow> setDefaultBackend nextConfig backend st1)
      in case r of
           Inl e \<Rightarrow> (Inl e, tr, st2)
         | Inr u \<Rightarrow>
             (case writeOracle h tr nextConfig of
                Some err \<Rightarrow> (Inl (Rejected err), tr @ [WriteConfig nextConfig], st2)
              | None \<Rightarrow> (Inr (), tr @ [WriteConfig nextConfig, LogConfigUpdated], st2)))"

text \<open>The warning of lines 541 to 544 and 578 to 581.\<close>

definition warnUnavailable ::
  "host \<Rightarrow> event list \<Rightarrow> SandboxBackend \<Rightarrow> event list" where
  "warnUnavailable h tr backend =
     (let (available, tr1) = isBackendAvailable h tr backend
      in if \<not> available
         then log tr1 (''Warning: '' @ dq @ backendName backend @ dq @
                       '' does not appear to be available on this system.'')
         else tr1)"

text \<open>\<open>title ?? fallback\<close> around \<open>stylePromptTitle\<close>.\<close>

definition titled :: "host \<Rightarrow> string \<Rightarrow> string" where
  "titled h s = (case stylePromptTitle h s of Some t \<Rightarrow> t | None \<Rightarrow> s)"

text \<open>Lines 550 to 591: the interactive mode.\<close>

definition interactive ::
  "host \<Rightarrow> event list \<Rightarrow> store \<Rightarrow> val \<Rightarrow> string option \<Rightarrow> SandboxBackend \<Rightarrow>
   (jsError + unit) \<times> event list \<times> store" where
  "interactive h tr st cfg agentId currentBackend =
     (let tr1 = tr @ [Intro (titled h ''Sandbox backend'')];
          tr2 = log tr1 (''Current backend: '' @ backendName currentBackend);
          (selected, tr3) =
             clackSelectBackend h tr2 (stylePromptMessage h ''Select container backend'')
               (map (\<lambda>b. (b, if b = docker then ''Docker'' else ''Podman'',
                            if b = docker then ''Docker daemon (default)''
                            else ''Podman '' @ emdash @ '' daemonless, Linux only''))
                  VALID_BACKENDS)
               currentBackend
      in case selected of
           Cancelled \<Rightarrow> (Inr (), cancel tr3 ''Cancelled.'', st)
         | Answered backend \<Rightarrow>
             if backend = currentBackend then
               (Inr (),
                tr3 @ [Outro (titled h (''Backend unchanged ('' @
                                        backendName currentBackend @ '').''))],
                st)
             else
               (case applyBackend h (warnUnavailable h tr3 backend) st cfg agentId backend of
                  (Inl e, tr4, st1) \<Rightarrow> (Inl e, tr4, st1)
                | (Inr u, tr4, st1) \<Rightarrow>
                    (let tr5 = (if backend = podman then runPodmanSetup h (log tr4 [])
                                else tr4)
                     in (Inr (),
                         tr5 @ [Outro (titled h (''Backend set to '' @
                                                 backendName backend @ ''.''))],
                         st1))))"

text \<open>Line 517: the agent the command is about, if any.\<close>

definition agentIdOf :: "host \<Rightarrow> SandboxBackendOptions \<Rightarrow> string option" where
  "agentIdOf h opts =
     (case agentOpt opts of
        Some a \<Rightarrow> if given (agentOpt opts) then Some (normalizeAgentId h a) else None
      | None \<Rightarrow> None)"

text \<open>
  \<open>sandboxBackendCommand\<close> (lines 512 to 592). \<open>VALID_BACKENDS.includes(requested)\<close> and
  the cast of \<open>requested\<close> to a backend are one lookup of the name among the valid
  backends.
\<close>

definition sandboxBackendCommand ::
  "host \<Rightarrow> SandboxBackendOptions \<Rightarrow> event list \<Rightarrow> store \<Rightarrow>
   (jsError + unit) \<times> event list \<times> store" where
  "sandboxBackendCommand h opts tr st =
     (let cfg = loadConfig h;
          agentId = agentIdOf h opts;
          currentBackend = resolveBackend h st cfg agentId
      in if jsonOpt opts then
           (Inr (),
            log tr (''{'' @ nl @ ''  '' @ dq @ ''backend'' @ dq @ '': '' @
                    jsonQuote (backendName currentBackend) @ '','' @ nl @
                    ''  '' @ dq @ ''agentId'' @ dq @ '': '' @
                    (case agentId of None \<Rightarrow> ''null'' | Some a \<Rightarrow> jsonQuote a) @ nl @ ''}''),
            st)
         else
           (case setOpt opts of
              Some s \<Rightarrow>
                if given (setOpt opts) then
                  (let requested = lowerCase h s
                   in case find (\<lambda>b. backendName b = requested) VALID_BACKENDS of
                        None \<Rightarrow>
                          (Inr (),
                           error tr (''Invalid backend '' @ dq @ s @ dq @ ''. Valid options: '' @
                                     joinWith '', '' (map backendName VALID_BACKENDS))
                             @ [Exit 1],
                           st)
                      | Some backend \<Rightarrow>
                          if requested = backendName currentBackend then
                            (Inr (),
                             log tr (''Backend is already set to '' @ dq @
                                     backendName currentBackend @ dq @ ''.''),
                             st)
                          else
                            applyBackend h (warnUnavailable h tr backend) st cfg agentId backend)
                else interactive h tr st cfg agentId currentBackend
            | None \<Rightarrow> interactive h tr st cfg agentId currentBackend))"

section \<open>Which objects a computation touches\<close>

text \<open>
  A value is fresh for \<open>n\<close> when it is not a reference to one of the first \<open>n\<close> objects.
  A store is isolated above \<open>n\<close> when the objects from \<open>n\<close> on hold fresh values only:
  nothing created after the first \<open>n\<close> objects leads back to them. \<open>keeps n m Q\<close>: run on
  a store isolated above \<open>n\<close>, the computation \<open>m\<close> leaves such a store, leaves the first
  \<open>n\<close> objects as they were, and returns a result with \<open>Q\<close> when it returns one.
\<close>

fun fresh :: "nat \<Rightarrow> val \<Rightarrow> bool" where
  "fresh n (JRef a) = (n \<le> a)"
| "fresh n v = True"

fun valuesOf :: "obj \<Rightarrow> val list" where
  "valuesOf (Object ps) = map snd ps"
| "valuesOf (Array xs ps) = xs @ map snd ps"

definition isolated :: "nat \<Rightarrow> store \<Rightarrow> bool" where
  "isolated n st = (\<forall>a. n \<le> a \<and> a < length st \<longrightarrow> (\<forall>v \<in> set (valuesOf (st ! a)). fresh n v))"

definition keeps :: "nat \<Rightarrow> 'a js \<Rightarrow> ('a \<Rightarrow> bool) \<Rightarrow> bool" where
  "keeps n m Q =
     (\<forall>st. n \<le> length st \<and> isolated n st \<longrightarrow>
        (case m st of (r, st1) \<Rightarrow>
           n \<le> length st1 \<and> isolated n st1 \<and> take n st1 = take n st \<and>
           (case r of Inl e \<Rightarrow> True | Inr x \<Rightarrow> Q x)))"

section \<open>Reading the agent list of a configuration\<close>

text \<open>
  \<open>agentListOf st cfg\<close> is the content of \<open>cfg.agents.list\<close> as \<open>applyBackend\<close> would find
  it: the elements of the array, the empty list when \<open>agents\<close> or \<open>list\<close> is nullish (the
  function makes them on demand), and \<open>None\<close> when the configuration does not have the
  shape (\<open>agents\<close> is not an object, \<open>list\<close> is not an array with the array methods).
\<close>

definition listOf :: "store \<Rightarrow> val \<Rightarrow> val list option" where
  "listOf st lv =
     (if nullish lv then Some []
      else (case lv of
              JRef l \<Rightarrow>
                (if l < length st then
                   (case st ! l of
                      Array xs ps \<Rightarrow>
                        (if map_of ps ''find'' = None \<and> map_of ps ''push'' = None
                         then Some xs else None)
                    | Object ps \<Rightarrow> None)
                 else None)
            | _ \<Rightarrow> None))"

definition agentListOf :: "store \<Rightarrow> val \<Rightarrow> val list option" where
  "agentListOf st cfg =
     (case getProp st cfg ''agents'' of
        Inl e \<Rightarrow> None
      | Inr av \<Rightarrow>
          (if nullish av then Some []
           else (case av of
                   JRef ag \<Rightarrow>
                     (case getProp st av ''list'' of
                        Inl e \<Rightarrow> None
                      | Inr lv \<Rightarrow> listOf st lv)
                 | _ \<Rightarrow> None)))"

text \<open>
  The objects on the way from the configuration at \<open>c\<close> to its agent list: the root,
  the agents object and the list array, as far as they exist.
\<close>

definition patchPath :: "store \<Rightarrow> nat \<Rightarrow> nat list" where
  "patchPath st c =
     c # (case getProp st (JRef c) ''agents'' of
            Inr (JRef ag) \<Rightarrow>
              ag # (case getProp st (JRef ag) ''list'' of
                      Inr (JRef l) \<Rightarrow> [l]
                    | _ \<Rightarrow> [])
          | _ \<Rightarrow> [])"

section \<open>The registry reconciler\<close>

text \<open>
  A registry entry has a container name, the image it was launched from and the session
  key of its owner; the two registries may add fields of their own, which the record
  scheme carries along. A listed item is the entry with the two computed fields.
\<close>

record RegistryEntry =
  containerName :: string
  image :: string
  sessionKey :: string

record ContainerInfo = RegistryEntry +
  running :: bool
  imageMatch :: bool

text \<open>
  \<open>dockerContainerState\<close> returns whether the container exists and runs; \<open>execDocker\<close>
  with \<open>allowFailure\<close> returns the exit code and the output, or throws; the resolved
  sandbox configuration of an agent has its backend and the two configured images.
\<close>

record ContainerState =
  stateExists :: bool
  stateRunning :: bool

datatype dockerResult = Threw string | Completed int string

record SandboxConfig =
  sandboxBackend :: SandboxBackend
  dockerImage :: string
  browserImage :: string

text \<open>
  A bridge of \<open>BROWSER_BRIDGES\<close>: the container it serves and the server to stop. The map
  is kept as the list of its entries, in insertion order, keyed by session key.
\<close>

record BrowserBridge =
  bridgeContainerName :: string
  bridgeServer :: nat

text \<open>
  The events of the reconciler: the state query and the command of \<open>docker.ts\<close> (with
  the runtime used as \<open>command\<close>), the deletions from the two registries, and the stop of a
  bridge server.
\<close>

datatype revent =
    StateQuery string string
  | DockerExec "string list" string
  | RegistryRemove string
  | BrowserRegistryRemove string
  | BridgeStop nat

text \<open>
  The runtimes answer from the history, as the host of the backend command does.
  \<open>stopOracle\<close> says whether stopping a bridge server rejects. \<open>resolveSandboxAgentId\<close>
  (\<open>shared.ts\<close>) maps a session key to an agent id, and \<open>resolveSandboxConfigForAgent\<close>
  (\<open>config.ts\<close>) maps the loaded configuration and an agent id to the sandbox
  configuration.
\<close>

record 'cfg runtimes =
  stateOracle :: "revent list \<Rightarrow> string \<Rightarrow> string \<Rightarrow> ContainerState"
  dockerOracle :: "revent list \<Rightarrow> string list \<Rightarrow> string \<Rightarrow> dockerResult"
  stopOracle :: "revent list \<Rightarrow> nat \<Rightarrow> bool"
  resolveSandboxAgentId :: "string \<Rightarrow> string option"
  resolveSandboxConfigForAgent :: "'cfg \<Rightarrow> string option \<Rightarrow> SandboxConfig"
  loadedConfig :: 'cfg

text \<open>
  What the reconciler reads and changes: the two persisted registries and the bridges
  of the process.
\<close>

record sandboxes =
  registry :: "RegistryEntry list"
  browserRegistry :: "RegistryEntry list"
  bridges :: "(string \<times> BrowserBridge) list"

text \<open>An awaited call resolves or rejects.\<close>

datatype 'a promise = Resolves 'a | Rejects string

definition dockerContainerState ::
  "'cfg runtimes \<Rightarrow> revent list \<Rightarrow> string \<Rightarrow> string \<Rightarrow> ContainerState \<times> revent list" where
  "dockerContainerState w tr name command =
     (stateOracle w tr name command, tr @ [StateQuery name command])"

definition execDocker ::
  "'cfg runtimes \<Rightarrow> revent list \<Rightarrow> string list \<Rightarrow> string \<Rightarrow> dockerResult \<times> revent list" where
  "execDocker w tr args command = (dockerOracle w tr args command, tr @ [DockerExec args command])"

text \<open>
  Lines 36 to 59: the body of the loop of \<open>listSandboxRegistryItems\<close> for one entry.
  The image is read back only from a container that exists; a throw and a non-zero exit
  code leave the image of the entry.
\<close>

definition reconcileEntry ::
  "'cfg runtimes \<Rightarrow> (string option \<Rightarrow> string \<times> string) \<Rightarrow> revent list \<Rightarrow>
   'a RegistryEntry_scheme \<Rightarrow> 'a ContainerInfo_scheme \<times> revent list" where
  "reconcileEntry w resolveEntryConfig tr entry =
     (let agentId = resolveSandboxAgentId w (sessionKey entry);
          (configuredImage, command) = resolveEntryConfig agentId;
          (state, tr1) = dockerContainerState w tr (containerName entry) command;
          (actualImage, tr2) =
             (if stateExists state then
                (let (result, t) =
                       execDocker w tr1
                         [''inspect'', ''-f'', ''{{.Config.Image}}'', containerName entry] command
                 in (case result of
                       Completed code out \<Rightarrow> if code = 0 then trim out else image entry
                     | Threw err \<Rightarrow> image entry,
                     t))
              else (image entry, tr1))
      in (\<lparr>containerName = containerName entry, image = actualImage,
           sessionKey = sessionKey entry, running = stateRunning state,
           imageMatch = (actualImage = configuredImage), \<dots> = RegistryEntry.more entry\<rparr>,
          tr2))"

text \<open>
  \<open>listSandboxRegistryItems\<close> (lines 26 to 63), given the entries that \<open>params.read()\<close>
  returned: the loop over the entries, in their order.
\<close>

fun listSandboxRegistryItems ::
  "'cfg runtimes \<Rightarrow> 'a RegistryEntry_scheme list \<Rightarrow> (string option \<Rightarrow> string \<times> string) \<Rightarrow>
   revent list \<Rightarrow> 'a ContainerInfo_scheme list \<times> revent list" where
  "listSandboxRegistryItems w [] resolveEntryConfig tr = ([], tr)"
| "listSandboxRegistryItems w (entry # entries) resolveEntryConfig tr =
     (let (item, tr1) = reconcileEntry w resolveEntryConfig tr entry;
          (items, tr2) = listSandboxRegistryItems w entries resolveEntryConfig tr1
      in (item # items, tr2))"

text \<open>Lines 65 to 91: the two listings, with the configured image each compares with.\<close>

definition listSandboxContainers ::
  "'cfg runtimes \<Rightarrow> sandboxes \<Rightarrow> revent list \<Rightarrow> ContainerInfo list \<times> revent list" where
  "listSandboxContainers w s tr =
     listSandboxRegistryItems w (registry s)
       (\<lambda>agentId. let cfg = resolveSandboxConfigForAgent w (loadedConfig w) agentId
                  in (dockerImage cfg, if sandboxBackend cfg = podman then ''podman'' else ''docker''))
       tr"

definition listSandboxBrowsers ::
  "'cfg runtimes \<Rightarrow> sandboxes \<Rightarrow> revent list \<Rightarrow> ContainerInfo list \<times> revent list" where
  "listSandboxBrowsers w s tr =
     listSandboxRegistryItems w (browserRegistry s)
       (\<lambda>agentId. let cfg = resolveSandboxConfigForAgent w (loadedConfig w) agentId
                  in (browserImage cfg, if sandboxBackend cfg = podman then ''podman'' else ''docker''))
       tr"

text \<open>
  Modelled from the spec: \<open>removeRegistryEntry\<close> and \<open>removeBrowserRegistryEntry\<close> of
  \<open>registry.ts\<close>, which is not among the sources. The spec has a registry keyed by
  container name whose deletion removes the entry of the name and is a no-op when there
  is none.
\<close>

definition removeRegistryEntry :: "string \<Rightarrow> RegistryEntry list \<Rightarrow> RegistryEntry list" where
  "removeRegistryEntry name entries = filter (\<lambda>e. containerName e \<noteq> name) entries"

definition removeBrowserRegistryEntry :: "string \<Rightarrow> RegistryEntry list \<Rightarrow> RegistryEntry list" where
  "removeBrowserRegistryEntry name entries = filter (\<lambda>e. containerName e \<noteq> name) entries"

text \<open>
  \<open>removeSandboxContainer\<close> (lines 93 to 105). Each \<open>rm -f\<close> is inside its own \<open>try\<close>
  with an empty \<open>catch\<close>, so what \<open>execDocker\<close> returns or throws is dropped.
\<close>

definition removeSandboxContainer ::
  "'cfg runtimes \<Rightarrow> revent list \<Rightarrow> sandboxes \<Rightarrow> string \<Rightarrow>
   unit promise \<times> revent list \<times> sandboxes" where
  "removeSandboxContainer w tr s name =
     (let (r1, tr1) = execDocker w tr [''rm'', ''-f'', name] ''docker'';
          (r2, tr2) = execDocker w tr1 [''rm'', ''-f'', name] ''podman''
      in (Resolves (),
          tr2 @ [RegistryRemove name],
          s\<lparr>registry := removeRegistryEntry name (registry s)\<rparr>))"

text \<open>
  Lines 120 to 126: the loop over \<open>BROWSER_BRIDGES\<close>. A bridge of the container is
  stopped (a rejection is swallowed by the \<open>catch\<close>) and deleted from the map; the others
  stay, in their order.
\<close>

fun stopBridges ::
  "'cfg runtimes \<Rightarrow> revent list \<Rightarrow> string \<Rightarrow> (string \<times> BrowserBridge) list \<Rightarrow>
   (string \<times> BrowserBridge) list \<times> revent list" where
  "stopBridges w tr name [] = ([], tr)"
| "stopBridges w tr name ((key, bridge) # rest) =
     (if bridgeContainerName bridge = name then
        stopBridges w (tr @ [BridgeStop (bridgeServer bridge)]) name rest
      else
        (let (kept, tr1) = stopBridges w tr name rest in ((key, bridge) # kept, tr1)))"

text \<open>\<open>removeSandboxBrowserContainer\<close> (lines 107 to 127).\<close>

definition removeSandboxBrowserContainer ::
  "'cfg runtimes \<Rightarrow> revent list \<Rightarrow> sandboxes \<Rightarrow> string \<Rightarrow>
   unit promise \<times> revent list \<times> sandboxes" where
  "removeSandboxBrowserContainer w tr s name =
     (let (r1, tr1) = execDocker w tr [''rm'', ''-f'', name] ''docker'';
          (r2, tr2) = execDocker w tr1 [''rm'', ''-f'', name] ''podman'';
          tr3 = tr2 @ [BrowserRegistryRemove name];
          (kept, tr4) = stopBridges w tr3 name (bridges s)
      in (Resolves (),
          tr4,
          s\<lparr>browserRegistry := removeBrowserRegistryEntry name (browserRegistry s),
            bridges := kept\<rparr>))"

section \<open>The image a listing reports\<close>

text \<open>
  The actual image of an entry in the claim's words: the output of the \<open>inspect\<close> of the
  live container, trimmed, when the container exists and the command returns with exit
  code 0; the image of the registry entry otherwise. The state is asked at the history
  \<open>tr\<close>, the \<open>inspect\<close> right after it.
\<close>

definition actualImageAt ::
  "'cfg runtimes \<Rightarrow> revent list \<Rightarrow> 'a RegistryEntry_scheme \<Rightarrow> string \<Rightarrow> string" where
  "actualImageAt w tr entry command =
     (if stateExists (stateOracle w tr (containerName entry) command) then
        (case dockerOracle w (tr @ [StateQuery (containerName entry) command])
                [''inspect'', ''-f'', ''{{.Config.Image}}'', containerName entry] command of
           Completed code out \<Rightarrow> if code = 0 then trim out else image entry
         | Threw err \<Rightarrow> image entry)
      else image entry)"

section \<open>Example runtimes\<close>

text \<open>
  One sandbox container, \<open>sbx-1\<close>, launched from \<open>openclaw-sandbox:v1\<close>, which is also
  the configured image. The container exists; its \<open>inspect\<close> reports \<open>v1\<close> during the first
  listing and \<open>v2\<close> afterwards (the container was replaced in between). Removals throw.
\<close>

definition demoRuntimes :: "unit runtimes" where
  "demoRuntimes =
     \<lparr>stateOracle = (\<lambda>tr name command. \<lparr>stateExists = (name = ''sbx-1''), stateRunning = True\<rparr>),
      dockerOracle = (\<lambda>tr args command.
         if hd args = ''rm'' then Threw ''spawn ENOENT''
         else if length tr < 2 then Completed 0 (''openclaw-sandbox:v1'' @ nl)
         else Completed 0 (''openclaw-sandbox:v2'' @ nl)),
      stopOracle = (\<lambda>tr server. True),
      resolveSandboxAgentId = (\<lambda>key. Some ''main''),
      resolveSandboxConfigForAgent = (\<lambda>cfg agentId.
         \<lparr>sandboxBackend = docker, dockerImage = ''openclaw-sandbox:v1'',
          browserImage = ''openclaw-browser:v1''\<rparr>),
      loadedConfig = ()\<rparr>"

definition demoEntry :: RegistryEntry where
  "demoEntry = \<lparr>containerName = ''sbx-1'', image = ''openclaw-sandbox:v1'',
                sessionKey = ''agent:main:main''\<rparr>"

definition demoImages :: "string option \<Rightarrow> string \<times> string" where
  "demoImages agentId = (''openclaw-sandbox:v1'', ''docker'')"

text \<open>
  A process that still holds the bridge of the browser container \<open>sbx-browser-1\<close> while
  the browser registry has no entry for it.
\<close>

definition staleBridge :: sandboxes where
  "staleBridge =
     \<lparr>registry = [], browserRegistry = [],
      bridges = [(''agent:main:main'',
                  \<lparr>bridgeContainerName = ''sbx-browser-1'', bridgeServer = 7\<rparr>)]\<rparr>"

text \<open>The same process when its bridge serves another container.\<close>

definition otherBridge :: sandboxes where
  "otherBridge =
     \<lparr>registry = [], browserRegistry = [],
      bridges = [(''agent:main:main'',
                  \<lparr>bridgeContainerName = ''sbx-browser-2'', bridgeServer = 7\<rparr>)]\<rparr>"

section \<open>Properties of traces\<close>

text \<open>
  A prompt event of a trace was cancelled when the oracle it consulted, at the history
  before it, returned the cancel symbol.
\<close>

fun cancelledPrompt :: "host \<Rightarrow> event list \<Rightarrow> event \<Rightarrow> bool" where
  "cancelledPrompt h tr (TextPrompt m i p) = (textOracle h tr m i p = Cancelled)"
| "cancelledPrompt h tr (ConfirmPrompt m i) = (confirmOracle h tr m i = Cancelled)"
| "cancelledPrompt h tr (SelectBackend m os i) = (backendOracle h tr m = Cancelled)"
| "cancelledPrompt h tr (SelectQuadlet m os i) = (quadletOracle h tr m = Cancelled)"
| "cancelledPrompt h tr e = False"

text \<open>
  \<open>cancelStops h tr0 tr\<close>: \<open>tr\<close> extends \<open>tr0\<close>, and after a cancelled prompt of the
  extension comes the cancellation notice and nothing else. \<open>quiet h tr0 tr\<close>: the
  extension has no cancelled prompt.
\<close>

definition cancelStops :: "host \<Rightarrow> event list \<Rightarrow> event list \<Rightarrow> bool" where
  "cancelStops h tr0 tr =
     (\<exists>seg. tr = tr0 @ seg \<and>
        (\<forall>i<length seg. cancelledPrompt h (tr0 @ take i seg) (seg ! i)
            \<longrightarrow> drop (Suc i) seg = [Cancel ''Cancelled.'']))"

definition quiet :: "host \<Rightarrow> event list \<Rightarrow> event list \<Rightarrow> bool" where
  "quiet h tr0 tr =
     (\<exists>seg. tr = tr0 @ seg \<and>
        (\<forall>i<length seg. \<not> cancelledPrompt h (tr0 @ take i seg) (seg ! i)))"

definition stepOk :: "host \<Rightarrow> event list \<Rightarrow> step \<Rightarrow> bool" where
  "stepOk h tr0 s = (case s of Return t \<Rightarrow> cancelStops h tr0 t | Continue t \<Rightarrow> quiet h tr0 t)"

section \<open>Example hosts\<close>

text \<open>
  A Linux host where the invoking user \<open>alice\<close> exists with the range
  \<open>alice:100000:65536\<close> in both mapping files, \<open>sudo\<close> asks for a password, and the
  operator answers the user and UID prompts and cancels at the GID prompt. The
  configuration is the object at reference 0 and the effective backend is \<open>docker\<close>.
\<close>

definition demoExec :: "event list \<Rightarrow> string \<Rightarrow> string list \<Rightarrow> nat \<Rightarrow> execResult" where
  "demoExec tr cmd args t =
     (if cmd = ''podman'' then Stdout ''podman version 4.9.3''
      else if cmd = ''docker'' then Stdout ''Docker version 27.0.3''
      else if cmd = ''id'' then
        (if args = [''-u'', ''alice''] then Stdout ''1000''
         else Failed ''id: no such user'')
      else if cmd = ''grep'' then Stdout (''alice:100000:65536'' @ nl)
      else if cmd = ''systemctl'' then Stdout ''systemd 255''
      else if cmd = ''sudo'' then Failed ''sudo: a password is required''
      else Failed ''not found'')"

definition demoText :: "event list \<Rightarrow> string \<Rightarrow> string \<Rightarrow> string \<Rightarrow> string answer" where
  "demoText tr message initialValue placeholder =
     (if message = ''Podman user for sandbox containers'' then Answered ''alice''
      else if take 15 message = ''Subordinate UID'' then Answered ''200000:65536''
      else Cancelled)"

definition demoHost :: host where
  "demoHost =
     \<lparr>osPlatform = ''linux'', osUsername = ''alice'', osHomedir = ''/home/alice'',
      execOracle = demoExec, textOracle = demoText,
      confirmOracle = (\<lambda>tr m i. Answered True),
      backendOracle = (\<lambda>tr m. Answered podman),
      quadletOracle = (\<lambda>tr m. Answered install),
      writeOracle = (\<lambda>tr c. None),
      stylePromptMessage = (\<lambda>s. s), stylePromptTitle = (\<lambda>s. Some s),
      lowerCase = asciiLower,
      loadConfig = JRef 0,
      resolveBackend = (\<lambda>st cfg agentId. docker),
      normalizeAgentId = (\<lambda>s. s)\<rparr>"


text \<open>
  The readings of the mapping files used as examples: the spec's line
  \<open>user:100000:65536\<close> in \<open>/etc/subuid\<close> and none in \<open>/etc/subgid\<close>; and the same line in
  both files.
\<close>

definition uidOnly :: SubidInfo where
  "uidOnly = \<lparr>hasSubuid = True, hasSubgid = False,
               subuidRange = Some ''user:100000:65536'', subgidRange = None\<rparr>"

definition bothLines :: SubidInfo where
  "bothLines = \<lparr>hasSubuid = True, hasSubgid = True,
                 subuidRange = Some ''user:100000:65536'',
                 subgidRange = Some ''user:100000:65536''\<rparr>"

text \<open>
  The same host with \<open>podman\<close> as the effective backend and an operator who selects
  \<open>docker\<close>; and the same host with an operator who selects \<open>docker\<close>, the effective
  backend.
\<close>

definition switchHost :: host where
  "switchHost = demoHost\<lparr>backendOracle := (\<lambda>tr m. Answered docker),
                          resolveBackend := (\<lambda>st cfg agentId. podman)\<rparr>"

definition sameHost :: host where
  "sameHost = demoHost\<lparr>backendOracle := (\<lambda>tr m. Answered docker)\<rparr>"

text \<open>The options \<open>--set ""\<close>, \<open>--set kubernetes\<close>, \<open>--set DOCKER\<close>, and no option.\<close>

definition setEmpty :: SandboxBackendOptions where
  "setEmpty = \<lparr>setOpt = Some [], agentOpt = None, jsonOpt = False\<rparr>"

definition setKubernetes :: SandboxBackendOptions where
  "setKubernetes = \<lparr>setOpt = Some ''kubernetes'', agentOpt = None, jsonOpt = False\<rparr>"

definition setDOCKER :: SandboxBackendOptions where
  "setDOCKER = \<lparr>setOpt = Some ''DOCKER'', agentOpt = None, jsonOpt = False\<rparr>"

definition noOptions :: SandboxBackendOptions where
  "noOptions = \<lparr>setOpt = None, agentOpt = None, jsonOpt = False\<rparr>"

text \<open>The options of the select prompt for the backend (lines 557 to 561).\<close>

definition backendOptions :: "(SandboxBackend \<times> string \<times> string) list" where
  "backendOptions =
     [(docker, ''Docker'', ''Docker daemon (default)''),
      (podman, ''Podman'', ''Podman '' @ emdash @ '' daemonless, Linux only'')]"

text \<open>The configuration \<open>{agents: {list: [{id: "work"}]}}\<close>, at reference 0.\<close>

definition workStore :: store where
  "workStore =
     [Object [(''agents'', JRef 1)],
      Object [(''list'', JRef 2)],
      Array [JRef 3] [],
      Object [(''id'', JStr ''work'')]]"

section \<open>Commands of the subordinate-range step\<close>

text \<open>The external commands of a trace, in order, without their timeouts.\<close>

fun commands :: "event list \<Rightarrow> (string \<times> string list) list" where
  "commands [] = []"
| "commands (Exec cmd args t # es) = (cmd, args) # commands es"
| "commands (e # es) = commands es"

text \<open>
  The two shell commands of the step, written from the parts the spec names: the file,
  the user and the \<open>start:count\<close> value. The edit substitutes, in place, the line that
  begins with \<open>user:\<close> by \<open>user:\<close> followed by the value; the append adds that line.
\<close>

definition editCommand :: "string \<Rightarrow> string \<Rightarrow> string \<Rightarrow> string" where
  "editCommand file usr val =
     ''sed -i '' @ sq @ ''s/^'' @ usr @ '':.*/'' @ usr @ '':'' @ val @ ''/'' @ sq @ '' '' @ file"

definition appendCommand :: "string \<Rightarrow> string \<Rightarrow> string \<Rightarrow> string" where
  "appendCommand file usr val = ''echo '' @ sq @ usr @ '':'' @ val @ sq @ '' >> '' @ file"

section \<open>Failures of host mutations\<close>

text \<open>
  The host-mutating commands of the wizard are recognised by their shape: the creation
  of the user (\<open>sudo useradd -m -s /usr/sbin/nologin user\<close>), the edit or append of a
  subordinate range (\<open>sudo bash -c ...\<close> with the timeout of ten seconds), the two
  commands that make the unit file (\<open>sudo -u user mkdir -p dir\<close> and
  \<open>sudo -u user bash -c ...\<close>), and the reload and enable of the unit
  (\<open>sudo systemctl --machine=user@ --user ...\<close>).
\<close>

datatype failure =
    UserCreation string
  | RangeEdit string
  | UnitInstall string
  | UnitReload string

fun mutationKind :: "string \<Rightarrow> string list \<Rightarrow> nat \<Rightarrow> (string \<Rightarrow> failure) option" where
  "mutationKind cmd [a, b, c] t =
     (if cmd = ''sudo'' \<and> a = ''bash'' \<and> b = ''-c'' \<and> t = 10000 then Some RangeEdit else None)"
| "mutationKind cmd [a, b, c, d] t =
     (if cmd = ''sudo'' \<and> a = ''systemctl'' \<and> c = ''--user'' \<and> d = ''daemon-reload''
      then Some UnitReload else None)"
| "mutationKind cmd [a, b, c, d, e] t =
     (if cmd = ''sudo'' \<and> a = ''useradd'' \<and> b = ''-m'' \<and> c = ''-s'' \<and> d = ''/usr/sbin/nologin''
        then Some UserCreation
      else if cmd = ''sudo'' \<and> a = ''systemctl'' \<and> c = ''--user'' \<and> d = ''enable'' \<and>
              e = ''openclaw.service''
        then Some UnitReload
      else if cmd = ''sudo'' \<and> a = ''-u'' \<and> c = ''mkdir'' \<and> d = ''-p'' then Some UnitInstall
      else if cmd = ''sudo'' \<and> a = ''-u'' \<and> c = ''bash'' \<and> d = ''-c'' then Some UnitInstall
      else None)"
| "mutationKind cmd args t = None"

text \<open>
  An event of a trace is a failed mutation when it is one of these commands and the
  host, at the history before it, rejected it.
\<close>

fun mutationFailure :: "host \<Rightarrow> event list \<Rightarrow> event \<Rightarrow> failure option" where
  "mutationFailure h tr (Exec cmd args t) =
     (case mutationKind cmd args t of
        None \<Rightarrow> None
      | Some kind \<Rightarrow>
          (case execOracle h tr cmd args t of
             Failed err \<Rightarrow> Some (kind err)
           | Stdout out \<Rightarrow> None))"
| "mutationFailure h tr e = None"

fun isQuadletPrompt :: "event \<Rightarrow> bool" where
  "isQuadletPrompt (SelectQuadlet m os i) = True"
| "isQuadletPrompt e = False"

text \<open>
  A failed range command at position \<open>i\<close> of a trace is reported when the next two
  events are the error, which names the file and carries the error of the command, and
  the log of the manual command, the append of the very line that the failed command
  was to write.
\<close>

definition reportedAt :: "event list \<Rightarrow> nat \<Rightarrow> string \<Rightarrow> bool" where
  "reportedAt seg i err =
     (\<exists>file desired.
        (file = ''subuid'' \<or> file = ''subgid'') \<and>
        Suc (Suc i) < length seg \<and>
        ((\<exists>usr. seg ! i = Exec ''sudo''
                   [''bash'', ''-c'',
                    ''sed -i '' @ sq @ ''s/^'' @ usr @ '':.*/'' @ desired @ ''/'' @ sq @
                    '' /etc/'' @ file] 10000) \<or>
         seg ! i = Exec ''sudo''
                   [''bash'', ''-c'', ''echo '' @ sq @ desired @ sq @ '' >> /etc/'' @ file] 10000) \<and>
        seg ! Suc i = Error (''Failed to set '' @ file @ '': '' @ err) \<and>
        seg ! Suc (Suc i) =
          Log (''Set manually:'' @ nl @ ''  echo '' @ sq @ desired @ sq @
               '' | sudo tee -a /etc/'' @ file))"

text \<open>
  How the wizard deals with a failed mutation at position \<open>i\<close>. After a failed user
  creation come the error and the request to create the user and run the command
  again, and the wizard is over. A failed range command is reported, and the prompt for
  the unit comes later in the trace. After a failed command of the unit file comes the
  error, after a failed reload or enable the log of the manual commands; the install is
  the last step, so the trace ends there.
\<close>

fun handledAt :: "event list \<Rightarrow> nat \<Rightarrow> failure \<Rightarrow> bool" where
  "handledAt seg i (UserCreation err) =
     (drop (Suc i) seg =
        [Error (''Failed to create user: '' @ err),
         Log ''Create the user manually and re-run this command.''])"
| "handledAt seg i (RangeEdit err) =
     (reportedAt seg i err \<and> (\<exists>j. i < j \<and> j < length seg \<and> isQuadletPrompt (seg ! j)))"
| "handledAt seg i (UnitInstall err) =
     (drop (Suc i) seg = [Error (''Failed to install Quadlet unit: '' @ err)])"
| "handledAt seg i (UnitReload err) =
     (\<exists>quadletPath usr. drop (Suc i) seg = [Log (reloadManually quadletPath usr)])"

text \<open>
  The states of a run with respect to failed mutations: none so far; none but range
  failures, all reported; the same with the unit prompt reached after each of them; and
  every failure dealt with.
\<close>

definition calm :: "host \<Rightarrow> event list \<Rightarrow> event list \<Rightarrow> bool" where
  "calm h tr0 tr =
     (\<exists>seg. tr = tr0 @ seg \<and>
        (\<forall>i<length seg. mutationFailure h (tr0 @ take i seg) (seg ! i) = None))"

definition pending :: "host \<Rightarrow> event list \<Rightarrow> event list \<Rightarrow> bool" where
  "pending h tr0 tr =
     (\<exists>seg. tr = tr0 @ seg \<and>
        (\<forall>i<length seg. \<forall>f. mutationFailure h (tr0 @ take i seg) (seg ! i) = Some f \<longrightarrow>
            (\<exists>err. f = RangeEdit err \<and> reportedAt seg i err)))"

definition prompted :: "host \<Rightarrow> event list \<Rightarrow> event list \<Rightarrow> bool" where
  "prompted h tr0 tr =
     (\<exists>seg. tr = tr0 @ seg \<and>
        (\<forall>i<length seg. \<forall>f. mutationFailure h (tr0 @ take i seg) (seg ! i) = Some f \<longrightarrow>
            (\<exists>err. f = RangeEdit err \<and> handledAt seg i f)))"

definition handled :: "host \<Rightarrow> event list \<Rightarrow> event list \<Rightarrow> bool" where
  "handled h tr0 tr =
     (\<exists>seg. tr = tr0 @ seg \<and>
        (\<forall>i<length seg. \<forall>f. mutationFailure h (tr0 @ take i seg) (seg ! i) = Some f \<longrightarrow>
            handledAt seg i f))"

definition stepHandled :: "host \<Rightarrow> event list \<Rightarrow> step \<Rightarrow> bool" where
  "stepHandled h tr0 s =
     (case s of Return t \<Rightarrow> handled h tr0 t | Continue t \<Rightarrow> calm h tr0 t)"

text \<open>
  Two more operators of the example host. The first names the user \<open>bob\<close>, who does
  not exist, at every text prompt. The second keeps the user \<open>alice\<close>, asks for the UID
  range \<open>200000:65536\<close> and the GID range \<open>100000:65536\<close>, and skips the unit.
\<close>

definition bobHost :: host where
  "bobHost = demoHost\<lparr>textOracle := (\<lambda>tr m i p. Answered ''bob'')\<rparr>"

definition rangeHost :: host where
  "rangeHost =
     demoHost\<lparr>textOracle :=
                 (\<lambda>tr m i p.
                    if m = ''Podman user for sandbox containers'' then Answered ''alice''
                    else if take 15 m = ''Subordinate UID'' then Answered ''200000:65536''
                    else Answered ''100000:65536''),
               quadletOracle := (\<lambda>tr m. Answered skip)\<rparr>"

section \<open>Cancellation of the wizard\<close>

lemma quiet_refl: "quiet h tr tr"
  by (simp add: quiet_def)

lemma quiet_snoc:
  assumes "quiet h tr0 tr" and "\<not> cancelledPrompt h tr e"
  shows "quiet h tr0 (tr @ [e])"
proof -
  from assms(1) obtain seg where seg: "tr = tr0 @ seg"
    and q: "\<forall>i<length seg. \<not> cancelledPrompt h (tr0 @ take i seg) (seg ! i)"
    by (auto simp: quiet_def)
  have "\<not> cancelledPrompt h (tr0 @ take i (seg @ [e])) ((seg @ [e]) ! i)"
    if "i < length (seg @ [e])" for i
  proof (cases "i < length seg")
    case True
    with q show ?thesis by (simp add: nth_append)
  next
    case False
    with that have "i = length seg" by simp
    with assms(2) seg show ?thesis by simp
  qed
  with seg show ?thesis
    unfolding quiet_def by (intro exI [of _ "seg @ [e]"]) simp
qed

lemma quiet_stops: "quiet h tr0 tr \<Longrightarrow> cancelStops h tr0 tr"
  by (auto simp: quiet_def cancelStops_def)

lemma quiet_cancel:
  assumes "quiet h tr0 tr"
  shows "cancelStops h tr0 (cancel (tr @ [e]) ''Cancelled.'')"
proof -
  from assms obtain seg where seg: "tr = tr0 @ seg"
    and q: "\<forall>i<length seg. \<not> cancelledPrompt h (tr0 @ take i seg) (seg ! i)"
    by (auto simp: quiet_def)
  let ?s = "seg @ [e, Cancel ''Cancelled.'']"
  have "drop (Suc i) ?s = [Cancel ''Cancelled.'']"
    if len: "i < length ?s" and c: "cancelledPrompt h (tr0 @ take i ?s) (?s ! i)" for i
  proof -
    from len have "i < length seg \<or> i = length seg \<or> i = Suc (length seg)"
      by auto
    then consider "i < length seg" | "i = length seg" | "i = Suc (length seg)"
      by blast
    then show ?thesis
    proof cases
      case 1
      with q c show ?thesis by (simp add: nth_append)
    next
      case 2
      then show ?thesis by simp
    next
      case 3
      with c show ?thesis by (simp add: nth_append)
    qed
  qed
  with seg show ?thesis
    unfolding cancelStops_def cancel_def by (intro exI [of _ ?s]) simp
qed


lemma quiet_if:
  "(c \<Longrightarrow> quiet h tr0 (snd a)) \<Longrightarrow> (\<not> c \<Longrightarrow> quiet h tr0 (snd b)) \<Longrightarrow>
   quiet h tr0 (snd (if c then a else b))"
  by simp

lemma quiet_if':
  "(c \<Longrightarrow> quiet h tr0 a) \<Longrightarrow> (\<not> c \<Longrightarrow> quiet h tr0 b) \<Longrightarrow>
   quiet h tr0 (if c then a else b)"
  by simp

lemma quiet_pair: "quiet h tr0 tr \<Longrightarrow> quiet h tr0 (snd (x, tr))"
  by simp

lemma quiet_runExec: "quiet h tr0 tr \<Longrightarrow> quiet h tr0 (snd (runExec h tr c a t))"
  by (auto simp: runExec_def intro: quiet_snoc)

lemma quiet_log: "quiet h tr0 tr \<Longrightarrow> quiet h tr0 (log tr m)"
  by (auto simp: log_def intro: quiet_snoc)

lemma quiet_error: "quiet h tr0 tr \<Longrightarrow> quiet h tr0 (error tr m)"
  by (auto simp: error_def intro: quiet_snoc)

lemma quiet_note: "quiet h tr0 tr \<Longrightarrow> quiet h tr0 (clackNote tr m t)"
  by (auto simp: clackNote_def intro: quiet_snoc)

lemma snd_grepSubid:
  "snd (grepSubid h tr u f) = snd (runExec h tr ''grep'' [''^'' @ u @ '':'', f] 3000)"
  by (simp add: grepSubid_def Let_def case_prod_beta split: execResult.splits)

lemma quiet_grepSubid: "quiet h tr0 tr \<Longrightarrow> quiet h tr0 (snd (grepSubid h tr u f))"
  by (simp only: snd_grepSubid quiet_runExec)

lemma quiet_isBackendAvailable:
  "quiet h tr0 tr \<Longrightarrow> quiet h tr0 (snd (isBackendAvailable h tr b))"
  by (simp add: isBackendAvailable_def case_prod_beta quiet_runExec)

lemma quiet_detectQuadlet:
  "quiet h tr0 tr \<Longrightarrow> quiet h tr0 (snd (detectQuadlet h tr u c))"
  by (auto simp: detectQuadlet_def Let_def case_prod_beta quiet_runExec
           split: execResult.splits)

lemma quiet_checkSubids:
  "quiet h tr0 tr \<Longrightarrow> quiet h tr0 (snd (checkSubids h tr u))"
  by (simp add: checkSubids_def case_prod_beta quiet_grepSubid)

lemmas quiet_intros =
  quiet_if quiet_if' quiet_pair quiet_runExec quiet_log quiet_error quiet_note
  quiet_grepSubid quiet_isBackendAvailable quiet_detectQuadlet quiet_checkSubids

lemma quiet_detectPodmanHost:
  "quiet h tr0 tr \<Longrightarrow> quiet h tr0 (snd (detectPodmanHost h tr))"
  apply (simp only: detectPodmanHost_def Let_def case_prod_beta snd_conv)
  apply (intro quiet_intros; assumption)
  done


lemma quiet_exec_case:
  "(\<And>err. r = Failed err \<Longrightarrow> quiet h tr0 (f err)) \<Longrightarrow>
   (\<And>out. r = Stdout out \<Longrightarrow> quiet h tr0 (g out)) \<Longrightarrow>
   quiet h tr0 (case r of Failed err \<Rightarrow> f err | Stdout out \<Rightarrow> g out)"
  by (cases r) auto

lemma quiet_installQuadletUnit:
  "quiet h tr0 tr \<Longrightarrow> quiet h tr0 (installQuadletUnit h u tr)"
  apply (simp only: installQuadletUnit_def Let_def case_prod_beta)
  apply (intro quiet_exec_case quiet_intros; assumption)
  done

lemma quiet_applySubuid:
  "quiet h tr0 tr \<Longrightarrow> quiet h tr0 (applySubuid h u s d tr)"
  apply (simp only: applySubuid_def Let_def case_prod_beta)
  apply (intro quiet_exec_case quiet_intros; assumption)
  done

lemma quiet_applySubgid:
  "quiet h tr0 tr \<Longrightarrow> quiet h tr0 (applySubgid h u s d tr)"
  apply (simp only: applySubgid_def Let_def case_prod_beta)
  apply (intro quiet_exec_case quiet_intros; assumption)
  done

lemma quiet_applySubidRanges:
  "quiet h tr0 tr \<Longrightarrow> quiet h tr0 (applySubidRanges h l u s a b tr)"
  apply (simp only: applySubidRanges_def Let_def)
  apply (intro quiet_intros quiet_applySubuid quiet_applySubgid; assumption)
  done

lemma stops_if:
  "(c \<Longrightarrow> cancelStops h tr0 a) \<Longrightarrow> (\<not> c \<Longrightarrow> cancelStops h tr0 b) \<Longrightarrow>
   cancelStops h tr0 (if c then a else b)"
  by simp

lemma stops_answer_case:
  "(a = Cancelled \<Longrightarrow> cancelStops h tr0 c) \<Longrightarrow>
   (\<And>x. a = Answered x \<Longrightarrow> cancelStops h tr0 (f x)) \<Longrightarrow>
   cancelStops h tr0 (case a of Cancelled \<Rightarrow> c | Answered x \<Rightarrow> f x)"
  by (cases a) auto

lemma quiet_clackText:
  "fst (clackText h tr m i p) = Answered x \<Longrightarrow> quiet h tr0 tr \<Longrightarrow>
   quiet h tr0 (snd (clackText h tr m i p))"
  by (auto simp: clackText_def intro: quiet_snoc)

lemma stops_clackText:
  "quiet h tr0 tr \<Longrightarrow> cancelStops h tr0 (cancel (snd (clackText h tr m i p)) ''Cancelled.'')"
  by (auto simp: clackText_def intro: quiet_cancel)

lemma quiet_clackConfirm:
  "fst (clackConfirm h tr m i) = Answered x \<Longrightarrow> quiet h tr0 tr \<Longrightarrow>
   quiet h tr0 (snd (clackConfirm h tr m i))"
  by (auto simp: clackConfirm_def intro: quiet_snoc)

lemma stops_clackConfirm:
  "quiet h tr0 tr \<Longrightarrow> cancelStops h tr0 (cancel (snd (clackConfirm h tr m i)) ''Cancelled.'')"
  by (auto simp: clackConfirm_def intro: quiet_cancel)

lemma quiet_clackSelectQuadlet:
  "fst (clackSelectQuadlet h tr m os i) = Answered x \<Longrightarrow> quiet h tr0 tr \<Longrightarrow>
   quiet h tr0 (snd (clackSelectQuadlet h tr m os i))"
  by (auto simp: clackSelectQuadlet_def intro: quiet_snoc)

lemma stops_clackSelectQuadlet:
  "quiet h tr0 tr \<Longrightarrow>
   cancelStops h tr0 (cancel (snd (clackSelectQuadlet h tr m os i)) ''Cancelled.'')"
  by (auto simp: clackSelectQuadlet_def intro: quiet_cancel)

lemma stops_setupQuadlet:
  "quiet h tr0 tr \<Longrightarrow> cancelStops h tr0 (setupQuadlet h info l u tr)"
  apply (simp only: setupQuadlet_def Let_def case_prod_beta)
  apply (rule stops_answer_case)
   apply (rule stops_clackSelectQuadlet)
   apply (intro quiet_intros; assumption)
  apply (rule quiet_stops)
  apply (intro quiet_intros quiet_installQuadletUnit)
      apply (rule quiet_clackSelectQuadlet, assumption, (intro quiet_intros; assumption))+
  done

lemma stops_setupSubids:
  "quiet h tr0 tr \<Longrightarrow> cancelStops h tr0 (setupSubids h info l u tr)"
  apply (simp only: setupSubids_def Let_def case_prod_beta)
  apply (rule stops_answer_case)
   apply (rule stops_clackText)
   apply (intro quiet_intros; assumption)
  apply (rule stops_answer_case)
   apply (rule stops_clackText)
   apply (rule quiet_clackText, assumption)
   apply (intro quiet_intros; assumption)
  apply (rule stops_setupQuadlet)
  apply (rule quiet_applySubidRanges)
  apply (rule quiet_clackText, assumption)
  apply (rule quiet_clackText, assumption)
  apply (intro quiet_intros; assumption)
  done

lemma stepOk_if:
  "(c \<Longrightarrow> stepOk h tr0 a) \<Longrightarrow> (\<not> c \<Longrightarrow> stepOk h tr0 b) \<Longrightarrow>
   stepOk h tr0 (if c then a else b)"
  by simp

lemma stepOk_answer_case:
  "(a = Cancelled \<Longrightarrow> stepOk h tr0 c) \<Longrightarrow>
   (\<And>x. a = Answered x \<Longrightarrow> stepOk h tr0 (f x)) \<Longrightarrow>
   stepOk h tr0 (case a of Cancelled \<Rightarrow> c | Answered x \<Rightarrow> f x)"
  by (cases a) auto

lemma stepOk_exec_case:
  "(\<And>err. r = Failed err \<Longrightarrow> stepOk h tr0 (f err)) \<Longrightarrow>
   (\<And>out. r = Stdout out \<Longrightarrow> stepOk h tr0 (g out)) \<Longrightarrow>
   stepOk h tr0 (case r of Failed err \<Rightarrow> f err | Stdout out \<Rightarrow> g out)"
  by (cases r) auto

lemma stepOk_Return: "cancelStops h tr0 t \<Longrightarrow> stepOk h tr0 (Return t)"
  by (simp add: stepOk_def)

lemma stepOk_Continue: "quiet h tr0 t \<Longrightarrow> stepOk h tr0 (Continue t)"
  by (simp add: stepOk_def)

lemma stepOk_ensureUser:
  "quiet h tr0 tr \<Longrightarrow> stepOk h tr0 (ensureUser h info l u tr)"
  apply (simp only: ensureUser_def Let_def case_prod_beta)
  apply (intro stepOk_if stepOk_answer_case stepOk_exec_case stepOk_Return stepOk_Continue)
       apply (rule stops_clackConfirm, (intro quiet_intros; assumption))
      apply (rule quiet_stops, intro quiet_intros,
             rule quiet_clackConfirm, assumption, (intro quiet_intros; assumption))
     apply (intro quiet_intros, rule quiet_clackConfirm, assumption,
            (intro quiet_intros; assumption))
    apply (intro quiet_intros, rule quiet_clackConfirm, assumption,
           (intro quiet_intros; assumption))
   apply (intro quiet_intros; assumption)
  apply assumption
  done

lemma stops_runPodmanSetup:
  "quiet h tr0 tr \<Longrightarrow> cancelStops h tr0 (runPodmanSetup h tr)"
proof -
  assume q: "quiet h tr0 tr"
  have step: "cancelStops h tr0
      (case ensureUser h info l u t of Return t' \<Rightarrow> t' | Continue t' \<Rightarrow> setupSubids h info l u t')"
    if "quiet h tr0 t" for info l u t
    using stepOk_ensureUser [OF that, of info l u]
    by (auto simp: stepOk_def split: step.splits intro: stops_setupSubids)
  show ?thesis
    apply (simp only: runPodmanSetup_def Let_def case_prod_beta)
    apply (rule stops_answer_case)
     apply (rule stops_clackText)
     apply (intro quiet_intros quiet_detectPodmanHost q)
    apply (rule step)
    apply (rule quiet_clackText, assumption)
    apply (intro quiet_intros quiet_detectPodmanHost q)
    done
qed

text \<open>
  Claim C4. Whenever a prompt of the provisioning wizard (the user, the confirmation
  of the user's creation, the subordinate UID range, the subordinate GID range, the
  unit-install choice) returns the cancel symbol, the wizard emits the notice
  \<open>Cancelled.\<close> and returns: the notice is the only event after the cancelled prompt,
  so no command runs after that point. The trace the wizard leaves extends the trace it
  was given.
\<close>

theorem runPodmanSetup_cancel:
  "\<exists>seg. runPodmanSetup h tr0 = tr0 @ seg \<and>
     (\<forall>i<length seg. cancelledPrompt h (tr0 @ take i seg) (seg ! i)
         \<longrightarrow> drop (Suc i) seg = [Cancel ''Cancelled.''])"
  using stops_runPodmanSetup [OF quiet_refl, of h tr0] by (simp add: cancelStops_def)

lemmas wizard_defs =
  runPodmanSetup_def detectPodmanHost_def isBackendAvailable_def grepSubid_def
  detectQuadlet_def formatDetectionSummary_def ensureUser_def setupSubids_def
  checkSubids_def rangeDefaults_def parseSubidRange_def defaultStart_def defaultCount_def
  applySubidRanges_def applySubuid_def applySubgid_def setupQuadlet_def
  installQuadletUnit_def quadletContent_def reloadManually_def
  runExec_def log_def error_def clackNote_def cancel_def clackText_def clackConfirm_def
  clackSelectQuadlet_def trim_def isSpace_def Let_def

lemma demo_cancel_run:
  "runPodmanSetup demoHost [] =
     [Exec ''podman'' [''version''] 5000,
      Exec ''id'' [''-u'', ''openclaw''] 3000,
      Exec ''grep'' [''^alice:'', ''/etc/subuid''] 3000,
      Exec ''grep'' [''^alice:'', ''/etc/subgid''] 3000,
      Exec ''id'' [''-u'', ''alice''] 3000,
      Exec ''systemctl'' [''--version''] 3000,
      Exec ''test'' [''-f'', ''/home/alice/.config/containers/systemd/openclaw.container''] 3000,
      Note (''Platform:  linux'' @ nl @ ''Podman:    installed'' @ nl @ ''User:      alice'' @ nl @
            ''subuid:    alice:100000:65536'' @ nl @ ''subgid:    alice:100000:65536'' @ nl @
            ''Quadlet:   not installed'') ''Podman host detection'',
      TextPrompt ''Podman user for sandbox containers'' ''alice'' ''alice'',
      Exec ''grep'' [''^alice:'', ''/etc/subuid''] 3000,
      Exec ''grep'' [''^alice:'', ''/etc/subgid''] 3000,
      TextPrompt (''Subordinate UID range for '' @ dq @ ''alice'' @ dq @ '' (start:count)'')
        ''100000:65536'' ''100000:65536'',
      TextPrompt (''Subordinate GID range for '' @ dq @ ''alice'' @ dq @ '' (start:count)'')
        ''100000:65536'' ''100000:65536'',
      Cancel ''Cancelled.'']"
  by (simp add: wizard_defs demoHost_def demoExec_def demoText_def)

text \<open>
  On the example host the operator cancels at the GID prompt, the thirteenth event of
  the run; the notice follows and the trace ends.
\<close>

theorem runPodmanSetup_cancel_witness:
  "cancelledPrompt demoHost (take 12 (runPodmanSetup demoHost []))
     (runPodmanSetup demoHost [] ! 12) \<and>
   drop 13 (runPodmanSetup demoHost []) = [Cancel ''Cancelled.'']"
proof -
  let ?T = "runPodmanSetup demoHost []"
  have c: "cancelledPrompt demoHost (take 12 ?T) (?T ! 12)"
    unfolding demo_cancel_run by (simp add: demoHost_def demoText_def)
  from runPodmanSetup_cancel [of demoHost "[]"]
  have "\<forall>i<length ?T. cancelledPrompt demoHost (take i ?T) (?T ! i)
          \<longrightarrow> drop (Suc i) ?T = [Cancel ''Cancelled.'']"
    by simp
  moreover have "12 < length ?T" by (simp add: demo_cancel_run)
  ultimately have "drop (Suc 12) ?T = [Cancel ''Cancelled.'']"
    using c by blast
  with c show ?thesis by simp
qed

section \<open>The subordinate-range step\<close>

lemma commands_append: "commands (xs @ ys) = commands xs @ commands ys"
  by (induction xs rule: commands.induct) auto

lemma applySubuid_paths:
  "\<exists>seg. applySubuid h u s (u @ '':'' @ v) tr = tr @ seg \<and>
     (hasSubuid s \<and> subuidRange s \<noteq> Some (u @ '':'' @ v) \<longrightarrow>
        commands seg = [(''sudo'', [''bash'', ''-c'', editCommand ''/etc/subuid'' u v])]) \<and>
     (\<not> hasSubuid s \<longrightarrow>
        commands seg = [(''sudo'', [''bash'', ''-c'', appendCommand ''/etc/subuid'' u v])]) \<and>
     (hasSubuid s \<and> subuidRange s = Some (u @ '':'' @ v) \<longrightarrow>
        seg = [Log (''subuid: '' @ u @ '':'' @ v @ '' (unchanged)'')])"
  by (auto simp: applySubuid_def runExec_def log_def error_def editCommand_def
        appendCommand_def split: execResult.splits)

lemma applySubgid_paths:
  "\<exists>seg. applySubgid h u s (u @ '':'' @ v) tr = tr @ seg \<and>
     (hasSubgid s \<and> subgidRange s \<noteq> Some (u @ '':'' @ v) \<longrightarrow>
        commands seg = [(''sudo'', [''bash'', ''-c'', editCommand ''/etc/subgid'' u v])]) \<and>
     (\<not> hasSubgid s \<longrightarrow>
        commands seg = [(''sudo'', [''bash'', ''-c'', appendCommand ''/etc/subgid'' u v])]) \<and>
     (hasSubgid s \<and> subgidRange s = Some (u @ '':'' @ v) \<longrightarrow>
        seg = [Log (''subgid: '' @ u @ '':'' @ v @ '' (unchanged)'')])"
  by (auto simp: applySubgid_def runExec_def log_def error_def editCommand_def
        appendCommand_def split: execResult.splits)

text \<open>
  Claim C1. On Linux the step leaves the trace it was given followed by the events of
  the UID block and then those of the GID block, and each block decides from its own
  file alone. When the user has a line (\<open>hasSubuid\<close>, resp. \<open>hasSubgid\<close>) that differs
  from the desired \<open>user:start:count\<close>, the one command of the block is the in-place
  \<open>sed\<close> substitution, whose pattern and replacement both begin with \<open>user:\<close>, and not
  the append; when the user has no line, the one command is the append; when the line
  equals the desired one, the block runs no command and logs the \<open>(unchanged)\<close> notice.
\<close>

theorem applySubidRanges_paths:
  "\<exists>segU segG.
     applySubidRanges h True u s uv gv tr = tr @ segU @ segG \<and>
     (hasSubuid s \<and> subuidRange s \<noteq> Some (u @ '':'' @ uv) \<longrightarrow>
        commands segU = [(''sudo'', [''bash'', ''-c'', editCommand ''/etc/subuid'' u uv])]) \<and>
     (\<not> hasSubuid s \<longrightarrow>
        commands segU = [(''sudo'', [''bash'', ''-c'', appendCommand ''/etc/subuid'' u uv])]) \<and>
     (hasSubuid s \<and> subuidRange s = Some (u @ '':'' @ uv) \<longrightarrow>
        segU = [Log (''subuid: '' @ u @ '':'' @ uv @ '' (unchanged)'')]) \<and>
     (hasSubgid s \<and> subgidRange s \<noteq> Some (u @ '':'' @ gv) \<longrightarrow>
        commands segG = [(''sudo'', [''bash'', ''-c'', editCommand ''/etc/subgid'' u gv])]) \<and>
     (\<not> hasSubgid s \<longrightarrow>
        commands segG = [(''sudo'', [''bash'', ''-c'', appendCommand ''/etc/subgid'' u gv])]) \<and>
     (hasSubgid s \<and> subgidRange s = Some (u @ '':'' @ gv) \<longrightarrow>
        segG = [Log (''subgid: '' @ u @ '':'' @ gv @ '' (unchanged)'')])"
proof -
  obtain segU where U: "applySubuid h u s (u @ '':'' @ uv) tr = tr @ segU"
    and U1: "hasSubuid s \<and> subuidRange s \<noteq> Some (u @ '':'' @ uv) \<longrightarrow>
        commands segU = [(''sudo'', [''bash'', ''-c'', editCommand ''/etc/subuid'' u uv])]"
    and U2: "\<not> hasSubuid s \<longrightarrow>
        commands segU = [(''sudo'', [''bash'', ''-c'', appendCommand ''/etc/subuid'' u uv])]"
    and U3: "hasSubuid s \<and> subuidRange s = Some (u @ '':'' @ uv) \<longrightarrow>
        segU = [Log (''subuid: '' @ u @ '':'' @ uv @ '' (unchanged)'')]"
    using applySubuid_paths [of h u s uv tr] by blast
  obtain segG where G: "applySubgid h u s (u @ '':'' @ gv) (tr @ segU) = (tr @ segU) @ segG"
    and G1: "hasSubgid s \<and> subgidRange s \<noteq> Some (u @ '':'' @ gv) \<longrightarrow>
        commands segG = [(''sudo'', [''bash'', ''-c'', editCommand ''/etc/subgid'' u gv])]"
    and G2: "\<not> hasSubgid s \<longrightarrow>
        commands segG = [(''sudo'', [''bash'', ''-c'', appendCommand ''/etc/subgid'' u gv])]"
    and G3: "hasSubgid s \<and> subgidRange s = Some (u @ '':'' @ gv) \<longrightarrow>
        segG = [Log (''subgid: '' @ u @ '':'' @ gv @ '' (unchanged)'')]"
    using applySubgid_paths [of h u s gv "tr @ segU"] by blast
  have "applySubidRanges h True u s uv gv tr = tr @ segU @ segG"
    using U G by (simp add: applySubidRanges_def Let_def)
  with U1 U2 U3 G1 G2 G3 show ?thesis by blast
qed

text \<open>
  The spec's example: the line \<open>user:100000:65536\<close> and the desired
  \<open>user:200000:65536\<close> give the edit; no GID line gives the append. With the line in
  both files and the desired values \<open>100000:65536\<close> and \<open>200000:65536\<close>, the UID block
  is the notice alone and the GID block is the edit.
\<close>

theorem applySubidRanges_paths_witness:
  "commands (applySubidRanges demoHost True ''user'' uidOnly ''200000:65536'' ''100000:65536'' [])
     = [(''sudo'', [''bash'', ''-c'', editCommand ''/etc/subuid'' ''user'' ''200000:65536'']),
        (''sudo'', [''bash'', ''-c'', appendCommand ''/etc/subgid'' ''user'' ''100000:65536''])] \<and>
   (\<exists>rest. applySubidRanges demoHost True ''user'' bothLines ''100000:65536'' ''200000:65536'' []
        = Log ''subuid: user:100000:65536 (unchanged)'' # rest \<and>
      commands rest
        = [(''sudo'', [''bash'', ''-c'', editCommand ''/etc/subgid'' ''user'' ''200000:65536''])])"
proof -
  obtain segU segG where
    run: "applySubidRanges demoHost True ''user'' uidOnly ''200000:65536'' ''100000:65536'' []
            = [] @ segU @ segG"
    and u: "hasSubuid uidOnly \<and> subuidRange uidOnly \<noteq> Some (''user'' @ '':'' @ ''200000:65536'')
            \<longrightarrow> commands segU
              = [(''sudo'', [''bash'', ''-c'', editCommand ''/etc/subuid'' ''user'' ''200000:65536''])]"
    and g: "\<not> hasSubgid uidOnly
            \<longrightarrow> commands segG
              = [(''sudo'', [''bash'', ''-c'', appendCommand ''/etc/subgid'' ''user'' ''100000:65536''])]"
    using applySubidRanges_paths
      [of demoHost "''user''" uidOnly "''200000:65536''" "''100000:65536''" "[]"]
    by blast
  have first: "commands (applySubidRanges demoHost True ''user'' uidOnly
                  ''200000:65536'' ''100000:65536'' [])
     = [(''sudo'', [''bash'', ''-c'', editCommand ''/etc/subuid'' ''user'' ''200000:65536'']),
        (''sudo'', [''bash'', ''-c'', appendCommand ''/etc/subgid'' ''user'' ''100000:65536''])]"
  proof -
    from u have "commands segU
        = [(''sudo'', [''bash'', ''-c'', editCommand ''/etc/subuid'' ''user'' ''200000:65536''])]"
      by (simp add: uidOnly_def)
    moreover from g have "commands segG
        = [(''sudo'', [''bash'', ''-c'', appendCommand ''/etc/subgid'' ''user'' ''100000:65536''])]"
      by (simp add: uidOnly_def)
    ultimately show ?thesis
      unfolding run by (simp add: commands_append)
  qed
  obtain segU' segG' where
    run': "applySubidRanges demoHost True ''user'' bothLines ''100000:65536'' ''200000:65536'' []
            = [] @ segU' @ segG'"
    and u': "hasSubuid bothLines \<and> subuidRange bothLines = Some (''user'' @ '':'' @ ''100000:65536'')
            \<longrightarrow> segU' = [Log (''subuid: '' @ ''user'' @ '':'' @ ''100000:65536'' @ '' (unchanged)'')]"
    and g': "hasSubgid bothLines \<and> subgidRange bothLines \<noteq> Some (''user'' @ '':'' @ ''200000:65536'')
            \<longrightarrow> commands segG'
              = [(''sudo'', [''bash'', ''-c'', editCommand ''/etc/subgid'' ''user'' ''200000:65536''])]"
    using applySubidRanges_paths
      [of demoHost "''user''" bothLines "''100000:65536''" "''200000:65536''" "[]"]
    by blast
  have second: "\<exists>rest. applySubidRanges demoHost True ''user'' bothLines
                    ''100000:65536'' ''200000:65536'' []
        = Log ''subuid: user:100000:65536 (unchanged)'' # rest \<and>
      commands rest
        = [(''sudo'', [''bash'', ''-c'', editCommand ''/etc/subgid'' ''user'' ''200000:65536''])]"
  proof -
    from u' have "segU' = [Log ''subuid: user:100000:65536 (unchanged)'']"
      by (simp add: bothLines_def)
    moreover from g' have "commands segG'
        = [(''sudo'', [''bash'', ''-c'', editCommand ''/etc/subgid'' ''user'' ''200000:65536''])]"
      by (simp add: bothLines_def)
    ultimately show ?thesis
      unfolding run' by simp
  qed
  from first second show ?thesis by blast
qed

section \<open>Copy on write\<close>

lemma keeps_return: "Q x \<Longrightarrow> keeps n (returnJ x) Q"
  by (simp add: keeps_def returnJ_def)

lemma keepsD:
  assumes "keeps n m Q" and "n \<le> length st" and "isolated n st" and "m st = (r, st1)"
  shows "n \<le> length st1" and "isolated n st1" and "take n st1 = take n st"
    and "case r of Inl e \<Rightarrow> True | Inr x \<Rightarrow> Q x"
proof -
  from assms(1) have "n \<le> length st \<and> isolated n st \<longrightarrow>
        (case m st of (r, st1) \<Rightarrow>
           n \<le> length st1 \<and> isolated n st1 \<and> take n st1 = take n st \<and>
           (case r of Inl e \<Rightarrow> True | Inr x \<Rightarrow> Q x))"
    unfolding keeps_def by (rule spec)
  with assms(2-4) show "n \<le> length st1" and "isolated n st1" and "take n st1 = take n st"
    and "case r of Inl e \<Rightarrow> True | Inr x \<Rightarrow> Q x"
    by simp_all
qed

lemma keepsI:
  assumes "\<And>st r st1. n \<le> length st \<Longrightarrow> isolated n st \<Longrightarrow> m st = (r, st1) \<Longrightarrow>
     n \<le> length st1 \<and> isolated n st1 \<and> take n st1 = take n st \<and>
     (case r of Inl e \<Rightarrow> True | Inr x \<Rightarrow> Q x)"
  shows "keeps n m Q"
  unfolding keeps_def
proof (intro allI impI)
  fix st assume st: "n \<le> length st \<and> isolated n st"
  obtain r st1 where m: "m st = (r, st1)" by (cases "m st")
  from assms [OF _ _ m] st m
  show "case m st of (r, st1) \<Rightarrow>
           n \<le> length st1 \<and> isolated n st1 \<and> take n st1 = take n st \<and>
           (case r of Inl e \<Rightarrow> True | Inr x \<Rightarrow> Q x)"
    by simp
qed

lemma keeps_bind:
  assumes "keeps n m Q" and "\<And>x. Q x \<Longrightarrow> keeps n (f x) R"
  shows "keeps n (bindJ m f) R"
proof (rule keepsI)
  fix st r st2
  assume st: "n \<le> length st" "isolated n st" and b: "bindJ m f st = (r, st2)"
  obtain r1 st1 where m: "m st = (r1, st1)" by (cases "m st")
  note k = keepsD [OF assms(1) st m]
  show "n \<le> length st2 \<and> isolated n st2 \<and> take n st2 = take n st \<and>
     (case r of Inl e \<Rightarrow> True | Inr x \<Rightarrow> R x)"
  proof (cases r1)
    case (Inl e)
    with b m have "r = Inl e" "st2 = st1" by (simp_all add: bindJ_def)
    with k show ?thesis by simp
  next
    case (Inr x)
    with k(4) have "Q x" by simp
    from b m Inr have f: "f x st1 = (r, st2)" by (simp add: bindJ_def)
    from keepsD [OF assms(2) [OF \<open>Q x\<close>] k(1) k(2) f] k(3) show ?thesis by simp
  qed
qed

lemma map_of_values: "map_of ps k = Some x \<Longrightarrow> x \<in> set (map snd ps)"
  by (induction ps) (auto split: if_splits)

lemma prop_in_values:
  "map_of (properties ob) k = Some x \<Longrightarrow> x \<in> set (valuesOf ob)"
  by (cases ob) (auto dest: map_of_values)

lemma keeps_getP: "fresh n v \<Longrightarrow> keeps n (getP v k) (fresh n)"
  unfolding keeps_def getP_def
  by (cases v) (auto simp: isolated_def split: option.splits dest: prop_in_values)

lemma in_putProp: "(a, v) \<in> set (putProp k x ps) \<Longrightarrow> v = x \<or> (a, v) \<in> set ps"
proof (induction ps)
  case Nil
  then show ?case by simp
next
  case (Cons p ps)
  obtain k' x' where p: "p = (k', x')" by (cases p)
  show ?case
  proof (cases "k' = k")
    case True
    with Cons.prems p show ?thesis by auto
  next
    case False
    with Cons.prems p have "(a, v) = (k', x') \<or> (a, v) \<in> set (putProp k x ps)" by simp
    with Cons.IH p show ?thesis by auto
  qed
qed

lemma values_withProp:
  assumes "v \<in> set (valuesOf (withProp k x ob))"
  shows "v = x \<or> v \<in> set (valuesOf ob)"
proof (cases ob)
  case (Object ps)
  with assms obtain a where "(a, v) \<in> set (putProp k x ps)" by auto
  from in_putProp [OF this] Object show ?thesis by force
next
  case (Array xs ps)
  with assms have "v \<in> set xs \<or> (\<exists>a. (a, v) \<in> set (putProp k x ps))" by auto
  then show ?thesis
  proof
    assume "v \<in> set xs"
    with Array show ?thesis by simp
  next
    assume "\<exists>a. (a, v) \<in> set (putProp k x ps)"
    then obtain a where "(a, v) \<in> set (putProp k x ps)" ..
    from in_putProp [OF this] Array show ?thesis by force
  qed
qed

lemma isolated_update:
  assumes "isolated n st" and "\<forall>v \<in> set (valuesOf ob). fresh n v"
  shows "isolated n (st[a := ob])"
  unfolding isolated_def
proof (intro allI impI ballI)
  fix b v
  assume b: "n \<le> b \<and> b < length (st[a := ob])" and v: "v \<in> set (valuesOf (st[a := ob] ! b))"
  show "fresh n v"
  proof (cases "b = a")
    case True
    with b v assms(2) show ?thesis by simp
  next
    case False
    with b v assms(1) show ?thesis by (simp add: isolated_def)
  qed
qed

lemma keeps_setP: "fresh n v \<Longrightarrow> fresh n x \<Longrightarrow> keeps n (setP v k x) (\<lambda>u. True)"
  unfolding keeps_def setP_def
proof (cases v; intro allI impI)
  fix a st
  assume v: "v = JRef a" and f: "fresh n v" "fresh n x"
    and st: "n \<le> length st \<and> isolated n st"
  show "case case setProp st v k x of Inl e \<Rightarrow> (Inl e, st) | Inr st1 \<Rightarrow> (Inr (), st1) of
          (r, st1) \<Rightarrow> n \<le> length st1 \<and> isolated n st1 \<and> take n st1 = take n st \<and>
             (case r of Inl e \<Rightarrow> True | Inr x \<Rightarrow> True)"
  proof (cases "a < length st")
    case False
    with v st show ?thesis by simp
  next
    case True
    from v f have na: "n \<le> a" by simp
    with True st have "\<forall>w \<in> set (valuesOf (st ! a)). fresh n w"
      by (simp add: isolated_def)
    with f(2) have "\<forall>w \<in> set (valuesOf (withProp k x (st ! a))). fresh n w"
      by (auto dest: values_withProp)
    with st have "isolated n (st[a := withProp k x (st ! a)])"
      by (intro isolated_update) auto
    with v True st na show ?thesis by simp
  qed
qed simp_all

lemma isolated_snoc:
  assumes "isolated n st" and "\<forall>v \<in> set (valuesOf ob). fresh n v"
  shows "isolated n (st @ [ob])"
  unfolding isolated_def
proof (intro allI impI ballI)
  fix b v
  assume b: "n \<le> b \<and> b < length (st @ [ob])" and v: "v \<in> set (valuesOf ((st @ [ob]) ! b))"
  show "fresh n v"
  proof (cases "b < length st")
    case True
    with b v assms(1) show ?thesis by (simp add: isolated_def nth_append)
  next
    case False
    with b have "b = length st" by simp
    with v assms(2) show ?thesis by simp
  qed
qed

lemma keeps_newObject:
  "\<forall>v \<in> set (valuesOf ob). fresh n v \<Longrightarrow> keeps n (newObject ob) (fresh n)"
  unfolding keeps_def newObject_def
  by (simp add: isolated_snoc)

lemma keeps_orNew:
  "fresh n v \<Longrightarrow> \<forall>w \<in> set (valuesOf ob). fresh n w \<Longrightarrow> keeps n (orNew v ob) (fresh n)"
  by (simp add: orNew_def keeps_newObject keeps_return)

lemma findEntry_result:
  "findEntry norm st xs a = Inr v \<Longrightarrow> v = JUndefined \<or> v \<in> set xs"
proof (induction xs)
  case Nil
  then show ?case by simp
next
  case (Cons e es)
  show ?case
  proof (cases "getProp st e ''id''")
    case (Inl err)
    with Cons.prems show ?thesis by simp
  next
    case (Inr idv)
    show ?thesis
    proof (cases "norm (case idv of JStr s \<Rightarrow> s | _ \<Rightarrow> []) = a")
      case True
      with Cons.prems Inr show ?thesis by simp
    next
      case False
      with Cons.prems Inr have "findEntry norm st es a = Inr v" by simp
      with Cons.IH show ?thesis by auto
    qed
  qed
qed

lemma keeps_findJ: "fresh n v \<Longrightarrow> keeps n (findJ norm v a) (fresh n)"
  unfolding keeps_def
proof (cases v; intro allI impI)
  fix l st
  assume v: "v = JRef l" and f: "fresh n v" and st: "n \<le> length st \<and> isolated n st"
  show "case findJ norm v a st of
          (r, st1) \<Rightarrow> n \<le> length st1 \<and> isolated n st1 \<and> take n st1 = take n st \<and>
             (case r of Inl e \<Rightarrow> True | Inr x \<Rightarrow> fresh n x)"
  proof (cases "l < length st")
    case False
    with v st show ?thesis by simp
  next
    case True
    from v f have "n \<le> l" by simp
    with True st have iso: "\<forall>w \<in> set (valuesOf (st ! l)). fresh n w"
      by (simp add: isolated_def)
    show ?thesis
    proof (cases "st ! l")
      case (Object ps)
      with v True st show ?thesis by simp
    next
      case (Array xs ps)
      with iso have "\<forall>w \<in> set xs. fresh n w" by simp
      with findEntry_result [of norm st xs a]
      have "\<And>w. findEntry norm st xs a = Inr w \<Longrightarrow> fresh n w" by auto
      with v True st Array show ?thesis by (auto split: sum.splits)
    qed
  qed
qed simp_all

lemma keeps_pushJ: "fresh n v \<Longrightarrow> fresh n e \<Longrightarrow> keeps n (pushJ v e) (\<lambda>u. True)"
  unfolding keeps_def
proof (cases v; intro allI impI)
  fix l st
  assume v: "v = JRef l" and f: "fresh n v" "fresh n e"
    and st: "n \<le> length st \<and> isolated n st"
  show "case pushJ v e st of
          (r, st1) \<Rightarrow> n \<le> length st1 \<and> isolated n st1 \<and> take n st1 = take n st \<and>
             (case r of Inl e \<Rightarrow> True | Inr x \<Rightarrow> True)"
  proof (cases "l < length st")
    case False
    with v st show ?thesis by simp
  next
    case True
    from v f have nl: "n \<le> l" by simp
    with True st have iso: "\<forall>w \<in> set (valuesOf (st ! l)). fresh n w"
      by (simp add: isolated_def)
    show ?thesis
    proof (cases "st ! l")
      case (Object ps)
      with v True st show ?thesis by simp
    next
      case (Array xs ps)
      with iso f(2) have "\<forall>w \<in> set (valuesOf (Array (xs @ [e]) ps)). fresh n w" by auto
      with st have "isolated n (st[l := Array (xs @ [e]) ps])"
        by (intro isolated_update) auto
      with v True st Array nl show ?thesis by auto
    qed
  qed
qed simp_all

lemma keeps_if:
  "(c \<Longrightarrow> keeps n a Q) \<Longrightarrow> (\<not> c \<Longrightarrow> keeps n b Q) \<Longrightarrow> keeps n (if c then a else b) Q"
  by simp

lemma keeps_setAgentBackend:
  assumes "fresh n nc"
  shows "keeps n (setAgentBackend norm nc a b) (\<lambda>u. True)"
  unfolding setAgentBackend_def
  apply (rule keeps_bind, rule keeps_getP, rule assms)
  apply (rule keeps_bind, rule keeps_orNew, assumption, simp)
  apply (rule keeps_bind, rule keeps_setP, rule assms, assumption)
  apply (rule keeps_bind, rule keeps_getP, assumption)
  apply (rule keeps_bind, rule keeps_orNew, assumption, simp)
  apply (rule keeps_bind, rule keeps_setP, assumption, assumption)
  apply (rule keeps_bind, rule keeps_findJ, assumption)
  apply (rule keeps_bind [where Q = "fresh n"])
   apply (rule keeps_if)
    apply (rule keeps_bind, rule keeps_newObject, simp)
    apply (rule keeps_bind, rule keeps_pushJ, assumption, assumption)
    apply (rule keeps_return, assumption)
   apply (rule keeps_return, assumption)
  apply (rule keeps_bind, rule keeps_getP, assumption)
  apply (rule keeps_bind, rule keeps_orNew, assumption, simp)
  apply (rule keeps_bind, rule keeps_setP, assumption, assumption)
  apply (rule keeps_setP, assumption, simp)
  done


lemma keeps_setDefaultBackend:
  assumes "fresh n nc"
  shows "keeps n (setDefaultBackend nc b) (\<lambda>u. True)"
  unfolding setDefaultBackend_def
  apply (rule keeps_bind, rule keeps_getP, rule assms)
  apply (rule keeps_bind, rule keeps_orNew, assumption, simp)
  apply (rule keeps_bind, rule keeps_setP, rule assms, assumption)
  apply (rule keeps_bind, rule keeps_getP, assumption)
  apply (rule keeps_bind, rule keeps_orNew, assumption, simp)
  apply (rule keeps_bind, rule keeps_setP, assumption, assumption)
  apply (rule keeps_bind, rule keeps_getP, assumption)
  apply (rule keeps_bind, rule keeps_orNew, assumption, simp)
  apply (rule keeps_bind, rule keeps_setP, assumption, assumption)
  apply (rule keeps_setP, assumption, simp)
  done

lemma fresh_shiftVal: "fresh n (shiftVal n v)"
  by (cases v) simp_all

lemma values_shiftObj: "v \<in> set (valuesOf (shiftObj n ob)) \<Longrightarrow> fresh n v"
  by (cases ob) (auto simp: shiftProps_def fresh_shiftVal)

lemma isolated_clone: "isolated (length st) (st @ map (shiftObj (length st)) st)"
  unfolding isolated_def
  by (auto simp: nth_append values_shiftObj)

lemma patch_frame:
  assumes "keeps (length st) m (\<lambda>u. True)"
    and "m (st @ map (shiftObj (length st)) st) = (r, st2)"
  shows "take (length st) st2 = st \<and> isolated (length st) st2"
  using keepsD [OF assms(1) _ isolated_clone assms(2)] by simp

text \<open>
  Claim C9. For every store, configuration value, agent id and backend, \<open>applyBackend\<close>
  leaves every object that existed before the call as it was, whether it returns or
  throws. The value handed to \<open>writeConfigFile\<close>, when the function gets that far, is the
  clone (for a configuration at \<open>c\<close> the new object at \<open>c + length st\<close>), and no object
  made by the call (the clone, the objects added to it) refers to an object of the
  caller.
\<close>

theorem applyBackend_copy_on_write:
  "case applyBackend h tr st cfg agentId backend of
     (r, tr1, st1) \<Rightarrow>
        take (length st) st1 = st \<and>
        isolated (length st) st1 \<and>
        (tr1 = tr \<or>
         tr1 = tr @ [WriteConfig (shiftVal (length st) cfg)] \<or>
         tr1 = tr @ [WriteConfig (shiftVal (length st) cfg), LogConfigUpdated])"
proof -
  let ?n = "length st"
  let ?nc = "shiftVal ?n cfg"
  let ?st1 = "st @ map (shiftObj ?n) st"
  define m where "m = (case agentId of
                Some a \<Rightarrow>
                  if given agentId
                  then setAgentBackend (normalizeAgentId h) ?nc a backend
                  else setDefaultBackend ?nc backend
              | None \<Rightarrow> setDefaultBackend ?nc backend)"
  have k: "keeps ?n m (\<lambda>u. True)"
    unfolding m_def
    by (auto split: option.splits
        intro: keeps_setAgentBackend keeps_setDefaultBackend fresh_shiftVal)
  obtain r st2 where r: "m ?st1 = (r, st2)" by (cases "m ?st1")
  from patch_frame [OF k r] have f: "take ?n st2 = st" "isolated ?n st2" by simp_all
  have "applyBackend h tr st cfg agentId backend =
      (case r of
         Inl e \<Rightarrow> (Inl e, tr, st2)
       | Inr u \<Rightarrow>
           (case writeOracle h tr ?nc of
              Some err \<Rightarrow> (Inl (Rejected err), tr @ [WriteConfig ?nc], st2)
            | None \<Rightarrow> (Inr (), tr @ [WriteConfig ?nc, LogConfigUpdated], st2)))"
    using r unfolding applyBackend_def structuredClone_def m_def
    by (auto split: option.splits)
  with f show ?thesis
    by (auto split: sum.splits option.splits)
qed

text \<open>
  The backend of the agent \<open>work\<close> is set on the example configuration: the four
  objects of the caller are as before, the writer gets the clone at reference 4, and the
  clone's root holds a reference to the clone of the agents object.
\<close>

lemma work_run:
  "applyBackend demoHost [] workStore (JRef 0) (Some ''work'') podman =
     (Inr (),
      [WriteConfig (JRef 4), LogConfigUpdated],
      workStore @
      [Object [(''agents'', JRef 5)],
       Object [(''list'', JRef 6)],
       Array [JRef 7] [],
       Object [(''id'', JStr ''work''), (''sandbox'', JRef 8)],
       Object [(''backend'', JStr ''podman'')]])"
  by (simp add: applyBackend_def structuredClone_def setAgentBackend_def bindJ_def returnJ_def
      getP_def setP_def orNew_def newObject_def shiftProps_def Let_def workStore_def
      demoHost_def)

theorem applyBackend_copy_on_write_witness:
  "(case applyBackend demoHost [] workStore (JRef 0) (Some ''work'') podman of
      (r, tr1, st1) \<Rightarrow>
         take 4 st1 = workStore \<and>
         valuesOf (st1 ! 4) = [JRef 5] \<and> fresh 4 (JRef 5) \<and>
         tr1 = [WriteConfig (JRef 4), LogConfigUpdated])"
proof -
  obtain r tr1 st1 where
    run: "applyBackend demoHost [] workStore (JRef 0) (Some ''work'') podman = (r, tr1, st1)"
    by (cases "applyBackend demoHost [] workStore (JRef 0) (Some ''work'') podman")
  from applyBackend_copy_on_write
      [where h = demoHost and tr = "[]" and st = workStore and cfg = "JRef 0"
         and agentId = "Some ''work''" and backend = podman]
  have t: "take (length workStore) st1 = workStore" and i: "isolated (length workStore) st1"
    by (simp_all add: run)
  have len: "length workStore = 4" by (simp add: workStore_def)
  from run have st1: "st1 = workStore @
      [Object [(''agents'', JRef 5)],
       Object [(''list'', JRef 6)],
       Array [JRef 7] [],
       Object [(''id'', JStr ''work''), (''sandbox'', JRef 8)],
       Object [(''backend'', JStr ''podman'')]]"
    and tr1: "tr1 = [WriteConfig (JRef 4), LogConfigUpdated]"
    by (simp_all add: work_run)
  have v: "valuesOf (st1 ! 4) = [JRef 5]"
    by (simp add: st1 workStore_def)
  have "4 < length st1" by (simp add: st1 workStore_def)
  with i len v have "fresh 4 (JRef 5)"
    unfolding isolated_def by auto
  with t len v tr1 show ?thesis by (simp add: run)
qed

section \<open>A new agent entry\<close>

lemma map_of_shiftProps:
  "map_of (shiftProps n ps) k = map_option (shiftVal n) (map_of ps k)"
  by (induction ps) (auto simp: shiftProps_def)

lemma properties_shiftObj: "properties (shiftObj n ob) = shiftProps n (properties ob)"
  by (cases ob) simp_all

lemma map_of_putProp:
  "map_of (putProp k x ps) k' = (if k' = k then Some x else map_of ps k')"
  by (induction ps) auto

lemma putProp_same: "map_of ps k = Some x \<Longrightarrow> putProp k x ps = ps"
  by (induction ps) (auto split: if_splits)

lemma withProp_same: "map_of (properties ob) k = Some x \<Longrightarrow> withProp k x ob = ob"
  by (cases ob) (simp_all add: putProp_same)

lemma properties_withProp: "properties (withProp k x ob) = putProp k x (properties ob)"
  by (cases ob) simp_all

lemma nullish_shiftVal [simp]: "nullish (shiftVal n v) = nullish v"
  by (cases v) simp_all

lemma shiftVal_nullish: "nullish v \<Longrightarrow> shiftVal n v = v"
  by (cases v) simp_all

lemma clone_nth:
  "a < length st \<Longrightarrow> (st @ map (shiftObj (length st)) st @ ext) ! (a + length st)
      = shiftObj (length st) (st ! a)"
  by (simp add: nth_append)

text \<open>The search of the clone of a list finds what the search of the list finds.\<close>

lemma getProp_clone:
  assumes "getProp st e k = Inr v"
    and "\<And>a. a < length st \<Longrightarrow> properties (S ! (a + length st)) = shiftProps (length st) (properties (st ! a))"
    and "2 * length st \<le> length S"
  shows "getProp S (shiftVal (length st) e) k = Inr (shiftVal (length st) v)"
proof (cases e)
  case (JRef a)
  with assms(1) have a: "a < length st" by (simp split: if_splits)
  with assms(3) have "a + length st < length S" by simp
  with JRef assms(1) assms(2) [OF a] a show ?thesis
    by (auto simp: map_of_shiftProps split: option.splits)
qed (use assms(1) in auto)

lemma findEntry_clone:
  assumes "findEntry norm st xs a = Inr JUndefined"
    and "\<And>a. a < length st \<Longrightarrow> properties (S ! (a + length st)) = shiftProps (length st) (properties (st ! a))"
    and "2 * length st \<le> length S"
  shows "findEntry norm S (map (shiftVal (length st)) xs) a = Inr JUndefined"
  using assms(1)
proof (induction xs)
  case Nil
  then show ?case by simp
next
  case (Cons e es)
  show ?case
  proof (cases "getProp st e ''id''")
    case (Inl err)
    with Cons.prems show ?thesis by simp
  next
    case (Inr idv)
    from getProp_clone [OF Inr assms(2) assms(3)]
    have g: "getProp S (shiftVal (length st) e) ''id'' = Inr (shiftVal (length st) idv)" by simp
    have s: "(case shiftVal (length st) idv of JStr s \<Rightarrow> s | _ \<Rightarrow> [])
           = (case idv of JStr s \<Rightarrow> s | _ \<Rightarrow> [])"
      by (cases idv) simp_all
    show ?thesis
    proof (cases "norm (case idv of JStr s \<Rightarrow> s | _ \<Rightarrow> []) = a")
      case True
      with Cons.prems Inr have "e = JUndefined" by simp
      with Inr show ?thesis by simp
    next
      case False
      with Cons.prems Inr have "findEntry norm st es a = Inr JUndefined" by simp
      from Cons.IH [OF this] g s False show ?thesis by simp
    qed
  qed
qed


text \<open>The steps of a computation, one rule for each kind of statement.\<close>

lemma bindJ_getP:
  "bindJ (getP v k) f st = (case getProp st v k of Inl e \<Rightarrow> (Inl e, st) | Inr x \<Rightarrow> f x st)"
  by (simp add: bindJ_def getP_def split: sum.splits)

lemma bindJ_setP:
  "bindJ (setP v k x) f st =
     (case setProp st v k x of Inl e \<Rightarrow> (Inl e, st) | Inr st1 \<Rightarrow> f () st1)"
  by (simp add: bindJ_def setP_def split: sum.splits)

lemma bindJ_newObject: "bindJ (newObject ob) f st = f (JRef (length st)) (st @ [ob])"
  by (simp add: bindJ_def newObject_def)

lemma bindJ_returnJ: "bindJ (returnJ x) f st = f x st"
  by (simp add: bindJ_def returnJ_def)

lemma bindJ_orNew:
  "bindJ (orNew v ob) f st = (if nullish v then f (JRef (length st)) (st @ [ob]) else f v st)"
  by (simp add: orNew_def bindJ_newObject bindJ_returnJ)

lemma bindJ_findJ:
  "bindJ (findJ norm v a) f st =
     (case findJ norm v a st of (Inl e, st1) \<Rightarrow> (Inl e, st1) | (Inr x, st1) \<Rightarrow> f x st1)"
  by (simp add: bindJ_def)

lemma bindJ_pushJ:
  "bindJ (pushJ v e) f st =
     (case pushJ v e st of (Inl e, st1) \<Rightarrow> (Inl e, st1) | (Inr x, st1) \<Rightarrow> f x st1)"
  by (simp add: bindJ_def)

lemma bindJ_assoc: "bindJ (bindJ m f) g = bindJ m (\<lambda>x. bindJ (f x) g)"
  by (rule ext) (simp add: bindJ_def split: prod.splits sum.splits)

lemma bindJ_if: "bindJ (if c then m1 else m2) f = (if c then bindJ m1 f else bindJ m2 f)"
  by simp

lemmas run_simps =
  bindJ_getP bindJ_setP bindJ_newObject bindJ_returnJ bindJ_orNew bindJ_findJ bindJ_pushJ
  bindJ_assoc bindJ_if

text \<open>
  The per-agent branch on the clone, run to its final store, when \<open>agents\<close> and \<open>list\<close>
  exist and no entry matches.
\<close>

lemma run_both:
  assumes n: "length st = n" and c: "c < n" and ag: "ag < n" and l: "l < n"
    and pa: "map_of (properties (st ! c)) ''agents'' = Some (JRef ag)"
    and pl: "map_of (properties (st ! ag)) ''list'' = Some (JRef l)"
    and arr: "st ! l = Array xs ps"
    and nf: "map_of ps ''find'' = None" and np: "map_of ps ''push'' = None"
    and absent: "findEntry norm st xs a = Inr JUndefined"
  shows "setAgentBackend norm (JRef (c + n)) a b (st @ map (shiftObj n) st) =
     (Inr (),
      (st @ map (shiftObj n) st)
        [l + n := Array (map (shiftVal n) xs @ [JRef (2 * n)]) (shiftProps n ps)]
      @ [Object [(''id'', JStr a), (''sandbox'', JRef (2 * n + 1))],
         Object [(''backend'', JStr (backendName b))]])"
proof -
  let ?S = "st @ map (shiftObj n) st"
  have len: "length ?S = 2 * n" by (simp add: n)
  have nth: "\<And>x. x < n \<Longrightarrow> ?S ! (x + n) = shiftObj n (st ! x)"
    by (simp add: nth_append n)
  have g1: "getProp ?S (JRef (c + n)) ''agents'' = Inr (JRef (ag + n))"
    using c pa by (simp add: n nth properties_shiftObj map_of_shiftProps)
  have s1: "setProp ?S (JRef (c + n)) ''agents'' (JRef (ag + n)) = Inr ?S"
  proof -
    have w: "withProp ''agents'' (JRef (ag + n)) (?S ! (c + n)) = ?S ! (c + n)"
      using c pa by (intro withProp_same) (simp add: nth properties_shiftObj map_of_shiftProps)
    have lt: "c + n < length ?S" using c by (simp add: n)
    show ?thesis by (simp only: setProp.simps lt if_True w list_update_id)
  qed
  have g2: "getProp ?S (JRef (ag + n)) ''list'' = Inr (JRef (l + n))"
    using ag pl by (simp add: n nth properties_shiftObj map_of_shiftProps)
  have s2: "setProp ?S (JRef (ag + n)) ''list'' (JRef (l + n)) = Inr ?S"
  proof -
    have w: "withProp ''list'' (JRef (l + n)) (?S ! (ag + n)) = ?S ! (ag + n)"
      using ag pl by (intro withProp_same) (simp add: nth properties_shiftObj map_of_shiftProps)
    have lt: "ag + n < length ?S" using ag by (simp add: n)
    show ?thesis by (simp only: setProp.simps lt if_True w list_update_id)
  qed
  have fe: "findEntry norm ?S (map (shiftVal n) xs) a = Inr JUndefined"
    using findEntry_clone [OF absent, of "?S"] n
    by (simp add: nth_append properties_shiftObj)
  have f: "findJ norm (JRef (l + n)) a ?S = (Inr JUndefined, ?S)"
    using l arr nf fe by (simp add: n nth map_of_shiftProps)
  define E0 where "E0 = Object [(''id'', JStr a)]"
  define S3 where "S3 = ?S @ [E0]"
  define S4 where "S4 = S3[l + n := Array (map (shiftVal n) xs @ [JRef (length ?S)]) (shiftProps n ps)]"
  define S5 where "S5 = S4 @ [Object []]"
  define S6 where "S6 = S5[length ?S := Object [(''id'', JStr a), (''sandbox'', JRef (length S4))]]"
  define S7 where "S7 = S6[length S4 := Object [(''backend'', JStr (backendName b))]]"
  have p: "pushJ (JRef (l + n)) (JRef (length ?S)) S3 = (Inr (), S4)"
    using l arr np
    by (simp add: S3_def S4_def n nth_append map_of_shiftProps)
  have g3: "getProp S4 (JRef (length ?S)) ''sandbox'' = Inr JUndefined"
    using l by (simp add: S3_def S4_def E0_def n nth_append)
  have s3: "setProp S5 (JRef (length ?S)) ''sandbox'' (JRef (length S4)) = Inr S6"
    using l by (simp add: S3_def S4_def S5_def S6_def E0_def n nth_append)
  have s4: "setProp S6 (JRef (length S4)) ''backend'' (JStr (backendName b)) = Inr S7"
    using l by (simp add: S3_def S4_def S5_def S6_def S7_def E0_def n nth_append)
  have run: "setAgentBackend norm (JRef (c + n)) a b ?S = (Inr (), S7)"
    unfolding setAgentBackend_def
    by (simp only: run_simps g1 s1 g2 s2 f p g3 s3 s4 sum.case prod.case nullish.simps
        truthy.simps if_True if_False not_False_eq_True
        E0_def [symmetric] S3_def [symmetric] S5_def [symmetric])
       (simp only: setP_def s4 sum.case)
  have "S7 = ?S [l + n := Array (map (shiftVal n) xs @ [JRef (2 * n)]) (shiftProps n ps)]
      @ [Object [(''id'', JStr a), (''sandbox'', JRef (2 * n + 1))],
         Object [(''backend'', JStr (backendName b))]]"
    using l
    by (simp add: S3_def S4_def S5_def S6_def S7_def E0_def n nth_append list_update_append
        mult_2)
  with run show ?thesis by simp
qed


text \<open>The same when \<open>agents\<close> exists and \<open>list\<close> is nullish.\<close>

lemma run_noList:
  assumes n: "length st = n" and c: "c < n" and ag: "ag < n"
    and pa: "map_of (properties (st ! c)) ''agents'' = Some (JRef ag)"
    and pl: "nullish (case map_of (properties (st ! ag)) ''list'' of
                        None \<Rightarrow> JUndefined | Some x \<Rightarrow> x)"
  shows "setAgentBackend norm (JRef (c + n)) a b (st @ map (shiftObj n) st) =
     (Inr (),
      (st @ map (shiftObj n) st)
        [ag + n := withProp ''list'' (JRef (2 * n)) (shiftObj n (st ! ag))]
      @ [Array [JRef (2 * n + 1)] [],
         Object [(''id'', JStr a), (''sandbox'', JRef (2 * n + 2))],
         Object [(''backend'', JStr (backendName b))]])"
proof -
  let ?S = "st @ map (shiftObj n) st"
  let ?lv = "case map_of (properties (st ! ag)) ''list'' of None \<Rightarrow> JUndefined | Some x \<Rightarrow> x"
  have nth: "\<And>x. x < n \<Longrightarrow> ?S ! (x + n) = shiftObj n (st ! x)"
    by (simp add: nth_append n)
  have g1: "getProp ?S (JRef (c + n)) ''agents'' = Inr (JRef (ag + n))"
    using c pa by (simp add: n nth properties_shiftObj map_of_shiftProps)
  have s1: "setProp ?S (JRef (c + n)) ''agents'' (JRef (ag + n)) = Inr ?S"
  proof -
    have w: "withProp ''agents'' (JRef (ag + n)) (?S ! (c + n)) = ?S ! (c + n)"
      using c pa by (intro withProp_same) (simp add: nth properties_shiftObj map_of_shiftProps)
    have lt: "c + n < length ?S" using c by (simp add: n)
    show ?thesis by (simp only: setProp.simps lt if_True w list_update_id)
  qed
  have g2: "getProp ?S (JRef (ag + n)) ''list'' = Inr (shiftVal n ?lv)"
    using ag by (simp add: n nth properties_shiftObj map_of_shiftProps split: option.splits)
  have nl: "nullish (shiftVal n ?lv)" using pl by simp
  define S3 where "S3 = ?S @ [Array [] []]"
  define S4 where "S4 = S3[ag + n := withProp ''list'' (JRef (length ?S)) (shiftObj n (st ! ag))]"
  define E0 where "E0 = Object [(''id'', JStr a)]"
  define S5 where "S5 = S4 @ [E0]"
  define S6 where "S6 = S5[length ?S := Array [JRef (length S4)] []]"
  define S7 where "S7 = S6 @ [Object []]"
  define S8 where "S8 = S7[length S4 := Object [(''id'', JStr a), (''sandbox'', JRef (length S6))]]"
  define S9 where "S9 = S8[length S6 := Object [(''backend'', JStr (backendName b))]]"
  have s2: "setProp S3 (JRef (ag + n)) ''list'' (JRef (length ?S)) = Inr S4"
    using ag by (simp add: S3_def S4_def n nth_append)
  have f: "findJ norm (JRef (length ?S)) a S4 = (Inr JUndefined, S4)"
    using ag by (simp add: S3_def S4_def n nth_append)
  have p: "pushJ (JRef (length ?S)) (JRef (length S4)) S5 = (Inr (), S6)"
    using ag by (simp add: S3_def S4_def S5_def S6_def n nth_append)
  have g3: "getProp S6 (JRef (length S4)) ''sandbox'' = Inr JUndefined"
    using ag by (simp add: S3_def S4_def S5_def S6_def E0_def n nth_append)
  have s3: "setProp S7 (JRef (length S4)) ''sandbox'' (JRef (length S6)) = Inr S8"
    using ag by (simp add: S3_def S4_def S5_def S6_def S7_def S8_def E0_def n nth_append)
  have s4: "setProp S8 (JRef (length S6)) ''backend'' (JStr (backendName b)) = Inr S9"
    using ag by (simp add: S3_def S4_def S5_def S6_def S7_def S8_def S9_def E0_def n nth_append)
  have run: "setAgentBackend norm (JRef (c + n)) a b ?S = (Inr (), S9)"
    unfolding setAgentBackend_def
    by (simp only: run_simps g1 s1 g2 nl s2 f p g3 s3 s4 sum.case prod.case nullish.simps
        truthy.simps if_True if_False not_False_eq_True
        E0_def [symmetric] S3_def [symmetric] S5_def [symmetric] S7_def [symmetric])
       (simp only: setP_def s4 sum.case)
  let ?T = "?S[ag + n := withProp ''list'' (JRef (2 * n)) (shiftObj n (st ! ag))]"
  have lenS: "length ?S = 2 * n" by (simp add: n)
  have lenT: "length ?T = 2 * n" by (simp add: n)
  have e4: "S4 = ?T @ [Array [] []]"
    unfolding S4_def S3_def lenS
    by (rule list_update_append1) (use ag in \<open>simp add: n\<close>)
  have e5: "S5 = ?T @ [Array [] [], E0]"
    by (simp add: S5_def e4)
  have e6: "S6 = ?T @ [Array [JRef (2 * n + 1)] [], E0]"
    using ag by (simp add: S6_def e5 lenS e4 list_update_append lenT n)
  have e7: "S7 = ?T @ [Array [JRef (2 * n + 1)] [], E0, Object []]"
    by (simp add: S7_def e6)
  have e8: "S8 = ?T @ [Array [JRef (2 * n + 1)] [],
                       Object [(''id'', JStr a), (''sandbox'', JRef (2 * n + 2))], Object []]"
    using ag by (simp add: S8_def e7 e4 e6 list_update_append lenT n)
  have e9: "S9 = ?T @ [Array [JRef (2 * n + 1)] [],
                       Object [(''id'', JStr a), (''sandbox'', JRef (2 * n + 2))],
                       Object [(''backend'', JStr (backendName b))]]"
    using ag by (simp add: S9_def e8 e6 list_update_append lenT n)
  from run e9 show ?thesis by simp
qed

text \<open>The same when \<open>agents\<close> is nullish.\<close>

lemma run_noAgents:
  assumes n: "length st = n" and c: "c < n"
    and pa: "nullish (case map_of (properties (st ! c)) ''agents'' of
                        None \<Rightarrow> JUndefined | Some x \<Rightarrow> x)"
  shows "setAgentBackend norm (JRef (c + n)) a b (st @ map (shiftObj n) st) =
     (Inr (),
      (st @ map (shiftObj n) st)
        [c + n := withProp ''agents'' (JRef (2 * n)) (shiftObj n (st ! c))]
      @ [Object [(''list'', JRef (2 * n + 1))],
         Array [JRef (2 * n + 2)] [],
         Object [(''id'', JStr a), (''sandbox'', JRef (2 * n + 3))],
         Object [(''backend'', JStr (backendName b))]])"
proof -
  let ?S = "st @ map (shiftObj n) st"
  let ?av = "case map_of (properties (st ! c)) ''agents'' of None \<Rightarrow> JUndefined | Some x \<Rightarrow> x"
  have nth: "\<And>x. x < n \<Longrightarrow> ?S ! (x + n) = shiftObj n (st ! x)"
    by (simp add: nth_append n)
  have g1: "getProp ?S (JRef (c + n)) ''agents'' = Inr (shiftVal n ?av)"
    using c by (simp add: n nth properties_shiftObj map_of_shiftProps split: option.splits)
  have nl: "nullish (shiftVal n ?av)" using pa by simp
  define S2 where "S2 = ?S @ [Object []]"
  define S3 where "S3 = S2[c + n := withProp ''agents'' (JRef (length ?S)) (shiftObj n (st ! c))]"
  define S4 where "S4 = S3 @ [Array [] []]"
  define S5 where "S5 = S4[length ?S := Object [(''list'', JRef (length S3))]]"
  define E0 where "E0 = Object [(''id'', JStr a)]"
  define S6 where "S6 = S5 @ [E0]"
  define S7 where "S7 = S6[length S3 := Array [JRef (length S5)] []]"
  define S8 where "S8 = S7 @ [Object []]"
  define S9 where "S9 = S8[length S5 := Object [(''id'', JStr a), (''sandbox'', JRef (length S7))]]"
  define S10 where "S10 = S9[length S7 := Object [(''backend'', JStr (backendName b))]]"
  note defs = S2_def S3_def S4_def S5_def S6_def S7_def S8_def S9_def S10_def E0_def
  have s1: "setProp S2 (JRef (c + n)) ''agents'' (JRef (length ?S)) = Inr S3"
    using c by (simp add: defs n nth_append)
  have g2: "getProp S3 (JRef (length ?S)) ''list'' = Inr JUndefined"
    using c by (simp add: defs n nth_append)
  have s2: "setProp S4 (JRef (length ?S)) ''list'' (JRef (length S3)) = Inr S5"
    using c by (simp add: defs n nth_append)
  have f: "findJ norm (JRef (length S3)) a S5 = (Inr JUndefined, S5)"
    using c by (simp add: defs n nth_append)
  have p: "pushJ (JRef (length S3)) (JRef (length S5)) S6 = (Inr (), S7)"
    using c by (simp add: defs n nth_append)
  have g3: "getProp S7 (JRef (length S5)) ''sandbox'' = Inr JUndefined"
    using c by (simp add: defs n nth_append)
  have s3: "setProp S8 (JRef (length S5)) ''sandbox'' (JRef (length S7)) = Inr S9"
    using c by (simp add: defs n nth_append)
  have s4: "setProp S9 (JRef (length S7)) ''backend'' (JStr (backendName b)) = Inr S10"
    using c by (simp add: defs n nth_append)
  have run: "setAgentBackend norm (JRef (c + n)) a b ?S = (Inr (), S10)"
    unfolding setAgentBackend_def
    by (simp only: run_simps g1 nl s1 g2 s2 f p g3 s3 s4 sum.case prod.case nullish.simps
        truthy.simps if_True if_False not_False_eq_True
        E0_def [symmetric] S2_def [symmetric] S4_def [symmetric] S6_def [symmetric]
        S8_def [symmetric])
       (simp only: setP_def s4 sum.case)
  let ?T = "?S[c + n := withProp ''agents'' (JRef (2 * n)) (shiftObj n (st ! c))]"
  have lenS: "length ?S = 2 * n" by (simp add: n)
  have lenT: "length ?T = 2 * n" by (simp add: n)
  have e3: "S3 = ?T @ [Object []]"
    unfolding S3_def S2_def lenS
    by (rule list_update_append1) (use c in \<open>simp add: n\<close>)
  have e4: "S4 = ?T @ [Object [], Array [] []]"
    by (simp add: S4_def e3)
  have e5: "S5 = ?T @ [Object [(''list'', JRef (2 * n + 1))], Array [] []]"
    using c by (simp add: S5_def e4 e3 lenS list_update_append lenT n)
  have e6: "S6 = ?T @ [Object [(''list'', JRef (2 * n + 1))], Array [] [], E0]"
    by (simp add: S6_def e5)
  have e7: "S7 = ?T @ [Object [(''list'', JRef (2 * n + 1))], Array [JRef (2 * n + 2)] [], E0]"
    using c by (simp add: S7_def e6 e5 e3 list_update_append lenT n)
  have e8: "S8 = ?T @ [Object [(''list'', JRef (2 * n + 1))], Array [JRef (2 * n + 2)] [], E0,
                       Object []]"
    by (simp add: S8_def e7)
  have e9: "S9 = ?T @ [Object [(''list'', JRef (2 * n + 1))], Array [JRef (2 * n + 2)] [],
                       Object [(''id'', JStr a), (''sandbox'', JRef (2 * n + 3))], Object []]"
    using c by (simp add: S9_def e8 e7 e5 list_update_append lenT n)
  have e10: "S10 = ?T @ [Object [(''list'', JRef (2 * n + 1))], Array [JRef (2 * n + 2)] [],
                       Object [(''id'', JStr a), (''sandbox'', JRef (2 * n + 3))],
                       Object [(''backend'', JStr (backendName b))]]"
    using c by (simp add: S10_def e9 e7 list_update_append lenT n)
  from run e10 show ?thesis by simp
qed


lemma applyBackend_agent:
  assumes "a \<noteq> []"
    and "setAgentBackend (normalizeAgentId h) (JRef (c + length st)) a b
           (st @ map (shiftObj (length st)) st) = (Inr (), F)"
  shows "applyBackend h tr st (JRef c) (Some a) b =
     (case writeOracle h tr (JRef (c + length st)) of
        Some err \<Rightarrow> (Inl (Rejected err), tr @ [WriteConfig (JRef (c + length st))], F)
      | None \<Rightarrow> (Inr (), tr @ [WriteConfig (JRef (c + length st)), LogConfigUpdated], F))"
  using assms by (simp add: applyBackend_def structuredClone_def)

lemma new_agent_conclusion:
  assumes run: "applyBackend h tr st (JRef c) (Some a) b =
     (case writeOracle h tr (JRef (c + length st)) of
        Some err \<Rightarrow> (Inl (Rejected err), tr @ [WriteConfig (JRef (c + length st))], F)
      | None \<Rightarrow> (Inr (), tr @ [WriteConfig (JRef (c + length st)), LogConfigUpdated], F))"
    and "agentListOf F (JRef (c + length st)) = Some (map (shiftVal (length st)) xs @ [JRef e])"
    and "e < length F" and "F ! e = Object [(''id'', JStr a), (''sandbox'', JRef s)]"
    and "s < length F" and "F ! s = Object [(''backend'', JStr (backendName b))]"
    and "\<forall>x < length st. x \<notin> set (patchPath st c) \<longrightarrow>
           F ! (x + length st) = shiftObj (length st) (st ! x)"
  shows "\<exists>r tr1 st1 e s.
     applyBackend h tr st (JRef c) (Some a) b = (r, tr1, st1) \<and>
     (r = Inr () \<and> tr1 = tr @ [WriteConfig (JRef (c + length st)), LogConfigUpdated] \<or>
      (\<exists>err. r = Inl (Rejected err)) \<and> tr1 = tr @ [WriteConfig (JRef (c + length st))]) \<and>
     agentListOf st1 (JRef (c + length st)) = Some (map (shiftVal (length st)) xs @ [JRef e]) \<and>
     e < length st1 \<and> st1 ! e = Object [(''id'', JStr a), (''sandbox'', JRef s)] \<and>
     s < length st1 \<and> st1 ! s = Object [(''backend'', JStr (backendName b))] \<and>
     (\<forall>x < length st. x \<notin> set (patchPath st c) \<longrightarrow>
        st1 ! (x + length st) = shiftObj (length st) (st ! x))"
proof (cases "writeOracle h tr (JRef (c + length st))")
  case None
  with run have "applyBackend h tr st (JRef c) (Some a) b =
      (Inr (), tr @ [WriteConfig (JRef (c + length st)), LogConfigUpdated], F)" by simp
  with assms(2-) show ?thesis by blast
next
  case (Some err)
  with run have "applyBackend h tr st (JRef c) (Some a) b =
      (Inl (Rejected err), tr @ [WriteConfig (JRef (c + length st))], F)" by simp
  with assms(2-) show ?thesis by blast
qed

text \<open>
  Claim C8. Let the configuration be an object whose \<open>agents.list\<close>, read as
  \<open>applyBackend\<close> reads it, has the elements \<open>xs\<close> (none when \<open>agents\<close> or \<open>list\<close> is
  missing), and let no element match the non-empty agent id \<open>a\<close>. Then \<open>applyBackend\<close>
  hands the clone to the writer, and in the store it leaves the clone's agent list is
  the clones of \<open>xs\<close>, in order, followed by exactly one new entry; the new entry is
  \<open>{id: a, sandbox: {backend: b}}\<close>; and every cloned object other than the clones of
  the root, of the agents object and of the list array is the copy of its original, so
  the entries that were there, with all they hold, are the same as in the input.
\<close>

theorem applyBackend_new_agent:
  assumes c: "c < length st"
    and shape: "agentListOf st (JRef c) = Some xs"
    and absent: "findEntry (normalizeAgentId h) st xs a = Inr JUndefined"
    and a: "a \<noteq> []"
  shows "\<exists>r tr1 st1 e s.
     applyBackend h tr st (JRef c) (Some a) b = (r, tr1, st1) \<and>
     (r = Inr () \<and> tr1 = tr @ [WriteConfig (JRef (c + length st)), LogConfigUpdated] \<or>
      (\<exists>err. r = Inl (Rejected err)) \<and> tr1 = tr @ [WriteConfig (JRef (c + length st))]) \<and>
     agentListOf st1 (JRef (c + length st)) = Some (map (shiftVal (length st)) xs @ [JRef e]) \<and>
     e < length st1 \<and> st1 ! e = Object [(''id'', JStr a), (''sandbox'', JRef s)] \<and>
     s < length st1 \<and> st1 ! s = Object [(''backend'', JStr (backendName b))] \<and>
     (\<forall>x < length st. x \<notin> set (patchPath st c) \<longrightarrow>
        st1 ! (x + length st) = shiftObj (length st) (st ! x))"
proof -
  let ?n = "length st"
  let ?S = "st @ map (shiftObj ?n) st"
  let ?norm = "normalizeAgentId h"
  let ?av = "case map_of (properties (st ! c)) ''agents'' of None \<Rightarrow> JUndefined | Some x \<Rightarrow> x"
  have gav: "getProp st (JRef c) ''agents'' = Inr ?av" using c by simp
  have nth: "\<And>x. x < ?n \<Longrightarrow> ?S ! (x + ?n) = shiftObj ?n (st ! x)"
    by (simp add: nth_append)
  show ?thesis
  proof (cases "nullish ?av")
    case True
    with shape gav have xs: "xs = []" by (simp add: agentListOf_def)
    from True gav have path: "patchPath st c = [c]"
      by (cases ?av) (simp_all add: patchPath_def)
    let ?F = "?S[c + ?n := withProp ''agents'' (JRef (2 * ?n)) (shiftObj ?n (st ! c))]
      @ [Object [(''list'', JRef (2 * ?n + 1))],
         Array [JRef (2 * ?n + 2)] [],
         Object [(''id'', JStr a), (''sandbox'', JRef (2 * ?n + 3))],
         Object [(''backend'', JStr (backendName b))]]"
    from run_noAgents [OF refl c True, of ?norm a b]
    have r: "setAgentBackend ?norm (JRef (c + ?n)) a b ?S = (Inr (), ?F)" .
    have l: "agentListOf ?F (JRef (c + ?n)) = Some (map (shiftVal ?n) xs @ [JRef (2 * ?n + 2)])"
      using c
      by (simp add: xs agentListOf_def listOf_def nth_append properties_withProp map_of_putProp)
    have f: "\<forall>x < ?n. x \<notin> set (patchPath st c) \<longrightarrow> ?F ! (x + ?n) = shiftObj ?n (st ! x)"
      by (simp add: path nth_append)
    have e: "2 * ?n + 2 < length ?F"
      "?F ! (2 * ?n + 2) = Object [(''id'', JStr a), (''sandbox'', JRef (2 * ?n + 3))]"
      by (simp_all add: nth_append mult_2 eval_nat_numeral)
    have s: "2 * ?n + 3 < length ?F"
      "?F ! (2 * ?n + 3) = Object [(''backend'', JStr (backendName b))]"
      by (simp_all add: nth_append mult_2 eval_nat_numeral)
    show ?thesis
      by (rule new_agent_conclusion [OF applyBackend_agent [OF a r] l e s f])
  next
    case False
    with shape gav obtain ag where av: "?av = JRef ag"
      by (cases ?av) (simp_all add: agentListOf_def)
    then have pa: "map_of (properties (st ! c)) ''agents'' = Some (JRef ag)"
      by (simp split: option.splits)
    from shape gav av have ag: "ag < ?n"
      by (simp add: agentListOf_def split: if_splits sum.splits)
    let ?lv = "case map_of (properties (st ! ag)) ''list'' of None \<Rightarrow> JUndefined | Some x \<Rightarrow> x"
    have glv: "getProp st (JRef ag) ''list'' = Inr ?lv" using ag by simp
    from shape gav av glv have lo: "listOf st ?lv = Some xs"
      by (simp add: agentListOf_def)
    show ?thesis
    proof (cases "nullish ?lv")
      case True
      with lo have xs: "xs = []" by (simp add: listOf_def)
      from True gav av glv have path: "patchPath st c = [c, ag]"
        by (cases ?lv) (simp_all add: patchPath_def)
      let ?F = "?S[ag + ?n := withProp ''list'' (JRef (2 * ?n)) (shiftObj ?n (st ! ag))]
        @ [Array [JRef (2 * ?n + 1)] [],
           Object [(''id'', JStr a), (''sandbox'', JRef (2 * ?n + 2))],
           Object [(''backend'', JStr (backendName b))]]"
      from run_noList [OF refl c ag pa True, of ?norm a b]
      have r: "setAgentBackend ?norm (JRef (c + ?n)) a b ?S = (Inr (), ?F)" .
      have pc: "map_of (properties (?F ! (c + ?n))) ''agents'' = Some (JRef (ag + ?n))"
        using c pa
        by (cases "c = ag")
           (simp_all add: nth_append properties_withProp map_of_putProp properties_shiftObj
              map_of_shiftProps)
      have l: "agentListOf ?F (JRef (c + ?n)) = Some (map (shiftVal ?n) xs @ [JRef (2 * ?n + 1)])"
        using c ag pc
        by (simp add: xs agentListOf_def listOf_def nth_append properties_withProp
            map_of_putProp del: shiftObj.simps)
      have f: "\<forall>x < ?n. x \<notin> set (patchPath st c) \<longrightarrow> ?F ! (x + ?n) = shiftObj ?n (st ! x)"
        by (simp add: path nth_append)
      have e: "2 * ?n + 1 < length ?F"
        "?F ! (2 * ?n + 1) = Object [(''id'', JStr a), (''sandbox'', JRef (2 * ?n + 2))]"
        by (simp_all add: nth_append mult_2 eval_nat_numeral)
      have s: "2 * ?n + 2 < length ?F"
        "?F ! (2 * ?n + 2) = Object [(''backend'', JStr (backendName b))]"
        by (simp_all add: nth_append mult_2 eval_nat_numeral)
      show ?thesis
        by (rule new_agent_conclusion [OF applyBackend_agent [OF a r] l e s f])
    next
      case False
      with lo obtain l where lv: "?lv = JRef l"
        by (cases ?lv) (simp_all add: listOf_def)
      then have pl: "map_of (properties (st ! ag)) ''list'' = Some (JRef l)"
        by (simp split: option.splits)
      from lo lv have l: "l < ?n"
        by (simp add: listOf_def split: if_splits)
      from lo lv l obtain ps where arr: "st ! l = Array xs ps"
        and nf: "map_of ps ''find'' = None" and np: "map_of ps ''push'' = None"
        by (cases "st ! l") (simp_all add: listOf_def split: if_splits)
      from gav av glv lv have path: "patchPath st c = [c, ag, l]"
        by (simp add: patchPath_def)
      let ?A = "Array (map (shiftVal ?n) xs @ [JRef (2 * ?n)]) (shiftProps ?n ps)"
      let ?F = "?S[l + ?n := ?A]
        @ [Object [(''id'', JStr a), (''sandbox'', JRef (2 * ?n + 1))],
           Object [(''backend'', JStr (backendName b))]]"
      from run_both [OF refl c ag l pa pl arr nf np absent, of b]
      have r: "setAgentBackend ?norm (JRef (c + ?n)) a b ?S = (Inr (), ?F)" .
      have props: "properties (?F ! (x + ?n)) = shiftProps ?n (properties (st ! x))"
        if "x < ?n" for x
        using that arr
        by (cases "x = l") (simp_all add: nth_append properties_shiftObj)
      have g1: "getProp ?F (JRef (c + ?n)) ''agents'' = Inr (JRef (ag + ?n))"
        using c pa props [OF c] by (simp add: map_of_shiftProps)
      have g2: "getProp ?F (JRef (ag + ?n)) ''list'' = Inr (JRef (l + ?n))"
        using ag pl props [OF ag] by (simp add: map_of_shiftProps)
      have lF: "listOf ?F (JRef (l + ?n)) = Some (map (shiftVal ?n) xs @ [JRef (2 * ?n)])"
        using l nf np by (simp add: listOf_def nth_append map_of_shiftProps)
      have li: "agentListOf ?F (JRef (c + ?n)) = Some (map (shiftVal ?n) xs @ [JRef (2 * ?n)])"
        unfolding agentListOf_def
        by (simp only: g1 g2 lF sum.case nullish.simps if_False val.case)
      have f: "\<forall>x < ?n. x \<notin> set (patchPath st c) \<longrightarrow> ?F ! (x + ?n) = shiftObj ?n (st ! x)"
        by (simp add: path nth_append)
      have e: "2 * ?n < length ?F"
        "?F ! (2 * ?n) = Object [(''id'', JStr a), (''sandbox'', JRef (2 * ?n + 1))]"
        by (simp_all add: nth_append mult_2 eval_nat_numeral)
      have s: "2 * ?n + 1 < length ?F"
        "?F ! (2 * ?n + 1) = Object [(''backend'', JStr (backendName b))]"
        by (simp_all add: nth_append mult_2 eval_nat_numeral)
      show ?thesis
        by (rule new_agent_conclusion [OF applyBackend_agent [OF a r] li e s f])
    qed
  qed
qed

text \<open>
  The agent \<open>newagent\<close> is added to the example configuration, whose list holds the
  entry of \<open>work\<close>.
\<close>

lemma newagent_run:
  "applyBackend demoHost [] workStore (JRef 0) (Some ''newagent'') podman =
     (Inr (),
      [WriteConfig (JRef 4), LogConfigUpdated],
      workStore @
      [Object [(''agents'', JRef 5)],
       Object [(''list'', JRef 6)],
       Array [JRef 7, JRef 8] [],
       Object [(''id'', JStr ''work'')],
       Object [(''id'', JStr ''newagent''), (''sandbox'', JRef 9)],
       Object [(''backend'', JStr ''podman'')]])"
  by (simp add: applyBackend_def structuredClone_def setAgentBackend_def bindJ_def returnJ_def
      getP_def setP_def orNew_def newObject_def shiftProps_def Let_def workStore_def
      demoHost_def)

theorem applyBackend_new_agent_witness:
  "0 < length workStore \<and>
   agentListOf workStore (JRef 0) = Some [JRef 3] \<and>
   findEntry (normalizeAgentId demoHost) workStore [JRef 3] ''newagent'' = Inr JUndefined \<and>
   (case applyBackend demoHost [] workStore (JRef 0) (Some ''newagent'') podman of
      (r, tr1, st1) \<Rightarrow>
         agentListOf st1 (JRef 4) = Some [JRef 7, JRef 8] \<and>
         st1 ! 8 = Object [(''id'', JStr ''newagent''), (''sandbox'', JRef 9)] \<and>
         st1 ! 9 = Object [(''backend'', JStr ''podman'')] \<and>
         st1 ! 7 = Object [(''id'', JStr ''work'')])"
proof -
  have h1: "0 < length workStore" by (simp add: workStore_def)
  have h2: "agentListOf workStore (JRef 0) = Some [JRef 3]"
    by (simp add: agentListOf_def listOf_def workStore_def)
  have h3: "findEntry (normalizeAgentId demoHost) workStore [JRef 3] ''newagent'' = Inr JUndefined"
    by (simp add: workStore_def demoHost_def)
  have h4: "''newagent'' \<noteq> []" by simp
  have len: "length workStore = 4" by (simp add: workStore_def)
  from applyBackend_new_agent [OF h1 h2 h3 h4, of "[]" podman]
  obtain r tr1 st1 e s where
    run: "applyBackend demoHost [] workStore (JRef 0) (Some ''newagent'') podman = (r, tr1, st1)"
    and l: "agentListOf st1 (JRef (0 + length workStore))
              = Some (map (shiftVal (length workStore)) [JRef 3] @ [JRef e])"
    and e: "st1 ! e = Object [(''id'', JStr ''newagent''), (''sandbox'', JRef s)]"
    and s: "st1 ! s = Object [(''backend'', JStr (backendName podman))]"
    and f: "\<forall>x < length workStore. x \<notin> set (patchPath workStore 0) \<longrightarrow>
              st1 ! (x + length workStore) = shiftObj (length workStore) (workStore ! x)"
    by blast
  from run have st1: "st1 = workStore @
      [Object [(''agents'', JRef 5)],
       Object [(''list'', JRef 6)],
       Array [JRef 7, JRef 8] [],
       Object [(''id'', JStr ''work'')],
       Object [(''id'', JStr ''newagent''), (''sandbox'', JRef 9)],
       Object [(''backend'', JStr ''podman'')]]"
    by (simp add: newagent_run)
  from l have l': "agentListOf st1 (JRef 4) = Some [JRef 7, JRef e]"
    by (simp add: len)
  then have e8: "e = 8"
    by (simp add: st1 agentListOf_def listOf_def workStore_def)
  with e have "st1 ! 8 = Object [(''id'', JStr ''newagent''), (''sandbox'', JRef s)]" by simp
  then have s9: "s = 9" by (simp add: st1 workStore_def)
  have "3 \<notin> set (patchPath workStore 0)"
    by (simp add: patchPath_def workStore_def)
  moreover have "(3::nat) < length workStore" by (simp add: len)
  ultimately have "st1 ! (3 + length workStore) = shiftObj (length workStore) (workStore ! 3)"
    using f by blast
  then have "st1 ! 7 = shiftObj 4 (workStore ! 3)" by (simp add: len)
  then have w: "st1 ! 7 = Object [(''id'', JStr ''work'')]"
    by (simp add: workStore_def shiftProps_def)
  from l' e s e8 s9 w h1 h2 h3 show ?thesis
    by (simp add: run)
qed

section \<open>The set path and the unchanged backend\<close>

lemma find_backend:
  "find (\<lambda>b. backendName b = r) VALID_BACKENDS = Some b \<longleftrightarrow> backendName b = r"
  by (cases b) (auto simp: VALID_BACKENDS_def)

lemma find_backend_None:
  "find (\<lambda>b. backendName b = r) VALID_BACKENDS = None \<longleftrightarrow>
   r \<notin> set (map backendName VALID_BACKENDS)"
  by (auto simp: VALID_BACKENDS_def)

lemmas command_defs =
  sandboxBackendCommand_def interactive_def agentIdOf_def applyBackend_def warnUnavailable_def
  titled_def isBackendAvailable_def structuredClone_def setDefaultBackend_def
  setAgentBackend_def bindJ_def returnJ_def getP_def setP_def orNew_def newObject_def
  shiftProps_def runExec_def log_def error_def cancel_def clackSelectBackend_def
  VALID_BACKENDS_def Let_def

lemmas demo_defs =
  demoHost_def demoExec_def demoText_def switchHost_def sameHost_def
  setEmpty_def setKubernetes_def setDOCKER_def noOptions_def backendOptions_def asciiLower_def

text \<open>
  With \<open>--set ""\<close> the command does not take the set path: the empty string is falsy,
  the interactive mode runs, and when the operator selects another backend the
  configuration is written. No error is reported and no exit code is set.
\<close>

theorem empty_set_counterexample:
  "sandboxBackendCommand switchHost setEmpty [] [Object []] =
     (Inr (),
      [Intro ''Sandbox backend'',
       Log ''Current backend: podman'',
       SelectBackend ''Select container backend'' backendOptions podman,
       Exec ''docker'' [''version''] 5000,
       WriteConfig (JRef 1),
       LogConfigUpdated,
       Outro ''Backend set to docker.''],
      [Object [],
       Object [(''agents'', JRef 2)],
       Object [(''defaults'', JRef 3)],
       Object [(''sandbox'', JRef 4)],
       Object [(''backend'', JStr ''docker'')]])"
  by (simp add: command_defs demo_defs)

text \<open>
  Claim C6, amended. For every non-empty requested backend string whose lower case is
  not the name of a valid backend, and without \<open>--json\<close>, the command reports the error
  that names the string as given and the valid set, signals exit code 1 and does nothing
  else: no configuration is written, and the store is as it was.
\<close>

theorem set_invalid_backend:
  assumes "\<not> jsonOpt opts" and "setOpt opts = Some s" and "s \<noteq> []"
    and "lowerCase h s \<notin> set (map backendName VALID_BACKENDS)"
  shows "sandboxBackendCommand h opts tr st =
           (Inr (),
            tr @ [Error (''Invalid backend '' @ dq @ s @ dq @ ''. Valid options: docker, podman''),
                  Exit 1],
            st)"
  using assms
  by (simp add: sandboxBackendCommand_def Let_def find_backend_None [THEN iffD2] error_def)
     (simp add: VALID_BACKENDS_def)

text \<open>The spec's example, \<open>--set kubernetes\<close>.\<close>

theorem set_invalid_backend_witness:
  "sandboxBackendCommand demoHost setKubernetes [] [Object []] =
     (Inr (),
      [Error (''Invalid backend '' @ dq @ ''kubernetes'' @ dq @ ''. Valid options: docker, podman''),
       Exit 1],
      [Object []])"
proof -
  have 1: "\<not> jsonOpt setKubernetes" and 2: "setOpt setKubernetes = Some ''kubernetes''"
    and 3: "''kubernetes'' \<noteq> []"
    by (simp_all add: setKubernetes_def)
  have 4: "lowerCase demoHost ''kubernetes'' \<notin> set (map backendName VALID_BACKENDS)"
    by (simp add: demoHost_def asciiLower_def VALID_BACKENDS_def)
  from set_invalid_backend [OF 1 2 3 4, of "[]" "[Object []]"] show ?thesis by simp
qed

text \<open>
  Claim C7. When the backend requested with \<open>--set\<close> (in lower case) is the effective
  backend of the agent scope, the command logs that the backend is already set, and
  that is all it does. When the backend selected at the prompt of the interactive mode
  is the effective backend, the command shows the outro \<open>Backend unchanged\<close> after the
  prompt, and that is all. In both cases nothing is written, the store is as it was, and
  neither the error channel nor the exit code is used.
\<close>

theorem same_backend_no_write:
  "(\<not> jsonOpt opts \<and> setOpt opts = Some s \<and> s \<noteq> [] \<and>
    lowerCase h s = backendName (resolveBackend h st (loadConfig h) (agentIdOf h opts)) \<longrightarrow>
      sandboxBackendCommand h opts tr st =
        (Inr (),
         tr @ [Log (''Backend is already set to '' @ dq @ lowerCase h s @ dq @ ''.'')],
         st)) \<and>
   (\<not> jsonOpt opts \<and> \<not> given (setOpt opts) \<and>
    backendOracle h
      (tr @ [Intro (titled h ''Sandbox backend''),
             Log (''Current backend: '' @
                  backendName (resolveBackend h st (loadConfig h) (agentIdOf h opts)))])
      (stylePromptMessage h ''Select container backend'')
      = Answered (resolveBackend h st (loadConfig h) (agentIdOf h opts)) \<longrightarrow>
      sandboxBackendCommand h opts tr st =
        (Inr (),
         tr @ [Intro (titled h ''Sandbox backend''),
               Log (''Current backend: '' @
                    backendName (resolveBackend h st (loadConfig h) (agentIdOf h opts))),
               SelectBackend (stylePromptMessage h ''Select container backend'') backendOptions
                 (resolveBackend h st (loadConfig h) (agentIdOf h opts)),
               Outro (titled h (''Backend unchanged ('' @
                    backendName (resolveBackend h st (loadConfig h) (agentIdOf h opts)) @ '').''))],
         st))"
proof (intro conjI impI)
  assume a: "\<not> jsonOpt opts \<and> setOpt opts = Some s \<and> s \<noteq> [] \<and>
    lowerCase h s = backendName (resolveBackend h st (loadConfig h) (agentIdOf h opts))"
  then show "sandboxBackendCommand h opts tr st =
        (Inr (),
         tr @ [Log (''Backend is already set to '' @ dq @ lowerCase h s @ dq @ ''.'')],
         st)"
    by (simp add: sandboxBackendCommand_def Let_def log_def find_backend [THEN iffD2])
next
  assume a: "\<not> jsonOpt opts \<and> \<not> given (setOpt opts) \<and>
    backendOracle h
      (tr @ [Intro (titled h ''Sandbox backend''),
             Log (''Current backend: '' @
                  backendName (resolveBackend h st (loadConfig h) (agentIdOf h opts)))])
      (stylePromptMessage h ''Select container backend'')
      = Answered (resolveBackend h st (loadConfig h) (agentIdOf h opts))"
  then have i: "sandboxBackendCommand h opts tr st =
      interactive h tr st (loadConfig h) (agentIdOf h opts)
        (resolveBackend h st (loadConfig h) (agentIdOf h opts))"
    by (cases "setOpt opts") (simp_all add: sandboxBackendCommand_def Let_def)
  from a show "sandboxBackendCommand h opts tr st =
        (Inr (),
         tr @ [Intro (titled h ''Sandbox backend''),
               Log (''Current backend: '' @
                    backendName (resolveBackend h st (loadConfig h) (agentIdOf h opts))),
               SelectBackend (stylePromptMessage h ''Select container backend'') backendOptions
                 (resolveBackend h st (loadConfig h) (agentIdOf h opts)),
               Outro (titled h (''Backend unchanged ('' @
                    backendName (resolveBackend h st (loadConfig h) (agentIdOf h opts)) @ '').''))],
         st)"
    unfolding i
    by (simp add: interactive_def Let_def log_def clackSelectBackend_def backendOptions_def
        VALID_BACKENDS_def)
qed

text \<open>
  \<open>--set DOCKER\<close> when the effective backend is \<open>docker\<close>, and the selection of
  \<open>docker\<close> at the prompt.
\<close>

theorem same_backend_no_write_witness:
  "sandboxBackendCommand demoHost setDOCKER [] [Object []] =
     (Inr (), [Log (''Backend is already set to '' @ dq @ ''docker'' @ dq @ ''.'')], [Object []]) \<and>
   sandboxBackendCommand sameHost noOptions [] [Object []] =
     (Inr (),
      [Intro ''Sandbox backend'',
       Log ''Current backend: docker'',
       SelectBackend ''Select container backend'' backendOptions docker,
       Outro ''Backend unchanged (docker).''],
      [Object []])"
proof -
  have 1: "\<not> jsonOpt setDOCKER \<and> setOpt setDOCKER = Some ''DOCKER'' \<and> ''DOCKER'' \<noteq> [] \<and>
    lowerCase demoHost ''DOCKER''
      = backendName (resolveBackend demoHost [Object []] (loadConfig demoHost)
          (agentIdOf demoHost setDOCKER))"
    by (simp add: setDOCKER_def demoHost_def asciiLower_def)
  have 2: "\<not> jsonOpt noOptions \<and> \<not> given (setOpt noOptions) \<and>
    backendOracle sameHost
      ([] @ [Intro (titled sameHost ''Sandbox backend''),
             Log (''Current backend: '' @
                  backendName (resolveBackend sameHost [Object []] (loadConfig sameHost)
                     (agentIdOf sameHost noOptions)))])
      (stylePromptMessage sameHost ''Select container backend'')
      = Answered (resolveBackend sameHost [Object []] (loadConfig sameHost)
                     (agentIdOf sameHost noOptions))"
    by (simp add: noOptions_def sameHost_def demoHost_def)
  from same_backend_no_write [of setDOCKER "''DOCKER''" demoHost "[Object []]" "[]"]
    1 have a: "sandboxBackendCommand demoHost setDOCKER [] [Object []] =
        (Inr (),
         [] @ [Log (''Backend is already set to '' @ dq @ lowerCase demoHost ''DOCKER'' @ dq @ ''.'')],
         [Object []])"
    by blast
  from same_backend_no_write [of noOptions "''DOCKER''" sameHost "[Object []]" "[]"] 2
  have b: "sandboxBackendCommand sameHost noOptions [] [Object []] =
        (Inr (),
         [] @ [Intro (titled sameHost ''Sandbox backend''),
               Log (''Current backend: '' @
                    backendName (resolveBackend sameHost [Object []] (loadConfig sameHost)
                       (agentIdOf sameHost noOptions))),
               SelectBackend (stylePromptMessage sameHost ''Select container backend'')
                 backendOptions
                 (resolveBackend sameHost [Object []] (loadConfig sameHost)
                       (agentIdOf sameHost noOptions)),
               Outro (titled sameHost (''Backend unchanged ('' @
                    backendName (resolveBackend sameHost [Object []] (loadConfig sameHost)
                       (agentIdOf sameHost noOptions)) @ '').''))],
         [Object []])"
    by blast
  from a b show ?thesis
    by (simp add: demoHost_def sameHost_def asciiLower_def titled_def)
qed

section \<open>Listing the registry\<close>

lemma reconcileEntry_item:
  "fst (reconcileEntry w rc tr entry) =
     \<lparr>containerName = containerName entry,
      image = actualImageAt w tr entry (snd (rc (resolveSandboxAgentId w (sessionKey entry)))),
      sessionKey = sessionKey entry,
      running = stateRunning (stateOracle w tr (containerName entry)
                  (snd (rc (resolveSandboxAgentId w (sessionKey entry))))),
      imageMatch = (actualImageAt w tr entry (snd (rc (resolveSandboxAgentId w (sessionKey entry))))
                    = fst (rc (resolveSandboxAgentId w (sessionKey entry)))),
      \<dots> = RegistryEntry.more entry\<rparr>"
  by (simp add: reconcileEntry_def actualImageAt_def dockerContainerState_def execDocker_def
      Let_def case_prod_beta split: dockerResult.splits)

lemma list_length:
  "length (fst (listSandboxRegistryItems w entries rc tr)) = length entries"
  by (induction entries arbitrary: tr) (simp_all add: Let_def case_prod_beta)

lemma list_nth:
  "i < length entries \<Longrightarrow>
   fst (listSandboxRegistryItems w entries rc tr) ! i =
     fst (reconcileEntry w rc (snd (listSandboxRegistryItems w (take i entries) rc tr))
            (entries ! i))"
proof (induction entries arbitrary: i tr)
  case Nil
  then show ?case by simp
next
  case (Cons e es)
  show ?case
  proof (cases i)
    case 0
    then show ?thesis by (simp add: Let_def case_prod_beta)
  next
    case (Suc j)
    with Cons.prems have "j < length es" by simp
    from Cons.IH [OF this] Suc show ?thesis
      by (simp add: Let_def case_prod_beta)
  qed
qed

text \<open>
  Claim C3. For every listed entry, \<open>imageMatch\<close> is the equality of the actual image
  and the image configured for the entry's agent, and the reported image is the actual
  one: the trimmed output of the \<open>inspect\<close> when the container exists on the agent's
  backend and the command returns with exit code 0, the image of the registry entry in
  every other case (no container, a non-zero exit code, a throw). The items come in the
  order of the entries. The value is computed from what the runtime answers during this
  call (at the history after the entries before it); the listing keeps nothing between
  calls.
\<close>

theorem list_imageMatch:
  assumes "i < length entries"
  shows "let items = fst (listSandboxRegistryItems w entries rc tr);
             before = snd (listSandboxRegistryItems w (take i entries) rc tr);
             entry = entries ! i;
             (configuredImage, command) = rc (resolveSandboxAgentId w (sessionKey entry));
             actualImage = actualImageAt w before entry command
         in length items = length entries \<and>
            containerName (items ! i) = containerName entry \<and>
            sessionKey (items ! i) = sessionKey entry \<and>
            image (items ! i) = actualImage \<and>
            imageMatch (items ! i) = (actualImage = configuredImage)"
  using assms
  by (simp add: Let_def case_prod_beta list_length list_nth reconcileEntry_item)

text \<open>
  Two listings of the example registry: the first finds the configured image, the
  second, made after it, finds the image of the replaced container and reports a
  mismatch.
\<close>

theorem list_imageMatch_witness:
  "imageMatch (fst (listSandboxRegistryItems demoRuntimes [demoEntry] demoImages []) ! 0) \<and>
   \<not> imageMatch
       (fst (listSandboxRegistryItems demoRuntimes [demoEntry] demoImages
               (snd (listSandboxRegistryItems demoRuntimes [demoEntry] demoImages []))) ! 0)"
proof -
  have i: "0 < length [demoEntry]" by simp
  let ?tr1 = "snd (listSandboxRegistryItems demoRuntimes [demoEntry] demoImages [])"
  have tr1: "?tr1 = [StateQuery ''sbx-1'' ''docker'',
                     DockerExec [''inspect'', ''-f'', ''{{.Config.Image}}'', ''sbx-1''] ''docker'']"
    by (simp add: reconcileEntry_def dockerContainerState_def execDocker_def Let_def
        demoRuntimes_def demoEntry_def demoImages_def)
  from list_imageMatch [OF i, of demoRuntimes demoImages "[]"]
  have a: "imageMatch (fst (listSandboxRegistryItems demoRuntimes [demoEntry] demoImages []) ! 0)
      = (actualImageAt demoRuntimes [] demoEntry ''docker'' = ''openclaw-sandbox:v1'')"
    by (simp add: Let_def demoImages_def)
  from list_imageMatch [OF i, of demoRuntimes demoImages ?tr1]
  have b: "imageMatch
       (fst (listSandboxRegistryItems demoRuntimes [demoEntry] demoImages ?tr1) ! 0)
      = (actualImageAt demoRuntimes ?tr1 demoEntry ''docker'' = ''openclaw-sandbox:v1'')"
    by (simp add: Let_def demoImages_def)
  have a': "actualImageAt demoRuntimes [] demoEntry ''docker'' = ''openclaw-sandbox:v1''"
    by (simp add: actualImageAt_def demoRuntimes_def demoEntry_def trim_def isSpace_def)
  have b': "actualImageAt demoRuntimes ?tr1 demoEntry ''docker'' = ''openclaw-sandbox:v2''"
    unfolding tr1
    by (simp add: actualImageAt_def demoRuntimes_def demoEntry_def trim_def isSpace_def)
  from a b a' b' show ?thesis by simp
qed

section \<open>Removing a container\<close>

lemma stopBridges_kept:
  "fst (stopBridges w tr name bs) = filter (\<lambda>kb. bridgeContainerName (snd kb) \<noteq> name) bs"
  by (induction bs arbitrary: tr) (auto simp: Let_def case_prod_beta)

lemma stopBridges_trace:
  "snd (stopBridges w tr name bs) =
     tr @ map (\<lambda>kb. BridgeStop (bridgeServer (snd kb)))
            (filter (\<lambda>kb. bridgeContainerName (snd kb) = name) bs)"
  by (induction bs arbitrary: tr) (auto simp: Let_def case_prod_beta)

lemma removeSandboxContainer_eq:
  "removeSandboxContainer w tr s name =
     (Resolves (),
      tr @ [DockerExec [''rm'', ''-f'', name] ''docker'',
            DockerExec [''rm'', ''-f'', name] ''podman'',
            RegistryRemove name],
      s\<lparr>registry := filter (\<lambda>e. containerName e \<noteq> name) (registry s)\<rparr>)"
  by (simp add: removeSandboxContainer_def execDocker_def removeRegistryEntry_def)

lemma removeSandboxBrowserContainer_eq:
  "removeSandboxBrowserContainer w tr s name =
     (Resolves (),
      tr @ [DockerExec [''rm'', ''-f'', name] ''docker'',
            DockerExec [''rm'', ''-f'', name] ''podman'',
            BrowserRegistryRemove name]
         @ map (\<lambda>kb. BridgeStop (bridgeServer (snd kb)))
             (filter (\<lambda>kb. bridgeContainerName (snd kb) = name) (bridges s)),
      s\<lparr>browserRegistry := filter (\<lambda>e. containerName e \<noteq> name) (browserRegistry s),
        bridges := filter (\<lambda>kb. bridgeContainerName (snd kb) \<noteq> name) (bridges s)\<rparr>)"
  by (simp add: removeSandboxBrowserContainer_def execDocker_def removeBrowserRegistryEntry_def
      Let_def case_prod_beta stopBridges_kept stopBridges_trace)

text \<open>
  Claim C2. For every container name, whatever the two runtimes return or throw, the
  removal of a sandbox container and of a browser container runs \<open>rm -f\<close> under
  \<open>docker\<close>, then under \<open>podman\<close>, then deletes the registry entry of the name, and
  resolves. Run again on what the first run left, it does the same three things,
  resolves, and changes nothing.
\<close>

theorem remove_best_effort:
  "removeSandboxContainer w tr s name =
     (Resolves (),
      tr @ [DockerExec [''rm'', ''-f'', name] ''docker'',
            DockerExec [''rm'', ''-f'', name] ''podman'',
            RegistryRemove name],
      s\<lparr>registry := filter (\<lambda>e. containerName e \<noteq> name) (registry s)\<rparr>) \<and>
   (\<exists>stops.
      removeSandboxBrowserContainer w tr s name =
        (Resolves (),
         tr @ [DockerExec [''rm'', ''-f'', name] ''docker'',
               DockerExec [''rm'', ''-f'', name] ''podman'',
               BrowserRegistryRemove name] @ stops,
         s\<lparr>browserRegistry := filter (\<lambda>e. containerName e \<noteq> name) (browserRegistry s),
           bridges := filter (\<lambda>kb. bridgeContainerName (snd kb) \<noteq> name) (bridges s)\<rparr>)) \<and>
   (case removeSandboxContainer w tr s name of
      (r1, tr1, s1) \<Rightarrow>
        removeSandboxContainer w tr1 s1 name =
          (Resolves (),
           tr1 @ [DockerExec [''rm'', ''-f'', name] ''docker'',
                  DockerExec [''rm'', ''-f'', name] ''podman'',
                  RegistryRemove name],
           s1)) \<and>
   (case removeSandboxBrowserContainer w tr s name of
      (r1, tr1, s1) \<Rightarrow>
        removeSandboxBrowserContainer w tr1 s1 name =
          (Resolves (),
           tr1 @ [DockerExec [''rm'', ''-f'', name] ''docker'',
                  DockerExec [''rm'', ''-f'', name] ''podman'',
                  BrowserRegistryRemove name],
           s1))"
  by (simp add: removeSandboxContainer_eq removeSandboxBrowserContainer_eq)

text \<open>
  The removal looks for the bridge in \<open>BROWSER_BRIDGES\<close> and never in the registry: with
  no registry entry for \<open>sbx-browser-1\<close> and a bridge of that container in the process,
  the bridge is stopped and deleted.
\<close>

theorem stale_bridge_counterexample:
  "removeSandboxBrowserContainer demoRuntimes [] staleBridge ''sbx-browser-1'' =
     (Resolves (),
      [DockerExec [''rm'', ''-f'', ''sbx-browser-1''] ''docker'',
       DockerExec [''rm'', ''-f'', ''sbx-browser-1''] ''podman'',
       BrowserRegistryRemove ''sbx-browser-1'',
       BridgeStop 7],
      \<lparr>registry = [], browserRegistry = [], bridges = []\<rparr>)"
  by (simp add: removeSandboxBrowserContainer_def execDocker_def removeBrowserRegistryEntry_def
      staleBridge_def)

text \<open>
  Claim C10, amended. The removal of a browser container whose name has no registry
  entry and no bridge in \<open>BROWSER_BRIDGES\<close> resolves, stops no bridge, and leaves the
  registries and the bridges as they were.
\<close>

theorem remove_without_bridge:
  assumes "\<forall>e \<in> set (browserRegistry s). containerName e \<noteq> name"
    and "\<forall>kb \<in> set (bridges s). bridgeContainerName (snd kb) \<noteq> name"
  shows "removeSandboxBrowserContainer w tr s name =
     (Resolves (),
      tr @ [DockerExec [''rm'', ''-f'', name] ''docker'',
            DockerExec [''rm'', ''-f'', name] ''podman'',
            BrowserRegistryRemove name],
      s)"
proof -
  from assms(1) have "filter (\<lambda>e. containerName e \<noteq> name) (browserRegistry s) = browserRegistry s"
    by (simp add: filter_id_conv)
  moreover from assms(2)
  have "filter (\<lambda>kb. bridgeContainerName (snd kb) \<noteq> name) (bridges s) = bridges s"
    and "filter (\<lambda>kb. bridgeContainerName (snd kb) = name) (bridges s) = []"
    by (simp_all add: filter_id_conv filter_empty_conv)
  ultimately show ?thesis
    by (simp add: removeSandboxBrowserContainer_eq)
qed

text \<open>The process holds the bridge of another container.\<close>

theorem remove_without_bridge_witness:
  "removeSandboxBrowserContainer demoRuntimes [] otherBridge ''sbx-browser-1'' =
     (Resolves (),
      [DockerExec [''rm'', ''-f'', ''sbx-browser-1''] ''docker'',
       DockerExec [''rm'', ''-f'', ''sbx-browser-1''] ''podman'',
       BrowserRegistryRemove ''sbx-browser-1''],
      otherBridge)"
proof -
  have 1: "\<forall>e \<in> set (browserRegistry otherBridge). containerName e \<noteq> ''sbx-browser-1''"
    by (simp add: otherBridge_def)
  have 2: "\<forall>kb \<in> set (bridges otherBridge). bridgeContainerName (snd kb) \<noteq> ''sbx-browser-1''"
    by (simp add: otherBridge_def)
  from remove_without_bridge [OF 1 2, of demoRuntimes "[]"] show ?thesis by simp
qed

section \<open>Failures of host mutations in the wizard\<close>


lemma reportedAt_append: "reportedAt seg i err \<Longrightarrow> reportedAt (seg @ new) i err"
  unfolding reportedAt_def
  by (elim exE conjE, intro exI conjI) (auto simp: nth_append)

lemma seg_index_cases:
  assumes "i < length (seg @ new)"
  obtains (old) "i < length seg"
        | (new) k where "i = length seg + k" and "k < length new"
proof (cases "i < length seg")
  case True
  then show ?thesis by (rule old)
next
  case False
  with assms have "i = length seg + (i - length seg)" and "i - length seg < length new"
    by simp_all
  then show ?thesis by (rule new)
qed

lemma calm_refl: "calm h tr tr"
  by (simp add: calm_def)

lemma calm_append:
  assumes "calm h tr0 tr"
    and "\<And>k. k < length new \<Longrightarrow> mutationFailure h (tr @ take k new) (new ! k) = None"
  shows "calm h tr0 (tr @ new)"
proof -
  from assms(1) obtain seg where seg: "tr = tr0 @ seg"
    and q: "\<forall>i<length seg. mutationFailure h (tr0 @ take i seg) (seg ! i) = None"
    by (auto simp: calm_def)
  have "mutationFailure h (tr0 @ take i (seg @ new)) ((seg @ new) ! i) = None"
    if "i < length (seg @ new)" for i
    using that
  proof (cases rule: seg_index_cases)
    case old
    with q show ?thesis by (simp add: nth_append)
  next
    case (new k)
    with assms(2) [of k] seg show ?thesis by (simp add: nth_append)
  qed
  with seg show ?thesis
    unfolding calm_def by (intro exI [of _ "seg @ new"]) simp
qed

lemma calm_snoc: "mutationFailure h tr e = None \<Longrightarrow> calm h tr0 tr \<Longrightarrow> calm h tr0 (tr @ [e])"
  by (rule calm_append) simp_all

lemma calm_pending: "calm h tr0 tr \<Longrightarrow> pending h tr0 tr"
  by (auto simp: calm_def pending_def)

lemma calm_handled: "calm h tr0 tr \<Longrightarrow> handled h tr0 tr"
  by (auto simp: calm_def handled_def)

lemma prompted_handled: "prompted h tr0 tr \<Longrightarrow> handled h tr0 tr"
  unfolding prompted_def handled_def by blast

lemma pending_append:
  assumes "pending h tr0 tr"
    and "\<And>k. k < length new \<Longrightarrow> mutationFailure h (tr @ take k new) (new ! k) = None"
  shows "pending h tr0 (tr @ new)"
proof -
  from assms(1) obtain seg where seg: "tr = tr0 @ seg"
    and q: "\<forall>i<length seg. \<forall>f. mutationFailure h (tr0 @ take i seg) (seg ! i) = Some f \<longrightarrow>
            (\<exists>err. f = RangeEdit err \<and> reportedAt seg i err)"
    by (auto simp: pending_def)
  have "\<exists>err. f = RangeEdit err \<and> reportedAt (seg @ new) i err"
    if "i < length (seg @ new)"
      and "mutationFailure h (tr0 @ take i (seg @ new)) ((seg @ new) ! i) = Some f" for i f
    using that(1)
  proof (cases rule: seg_index_cases)
    case old
    with that(2) have "mutationFailure h (tr0 @ take i seg) (seg ! i) = Some f"
      by (simp add: nth_append)
    with q old obtain err where "f = RangeEdit err" "reportedAt seg i err" by blast
    then show ?thesis by (auto intro: reportedAt_append)
  next
    case (new k)
    with assms(2) [of k] seg that(2) show ?thesis by (simp add: nth_append)
  qed
  with seg show ?thesis
    unfolding pending_def by (intro exI [of _ "seg @ new"]) simp
qed

lemma pending_snoc:
  "mutationFailure h tr e = None \<Longrightarrow> pending h tr0 tr \<Longrightarrow> pending h tr0 (tr @ [e])"
  by (rule pending_append) simp_all


lemma calm_prompted: "calm h tr0 tr \<Longrightarrow> prompted h tr0 tr"
  by (auto simp: calm_def prompted_def)

lemma handledAt_range_append:
  "handledAt seg i (RangeEdit err) \<Longrightarrow> i < length seg \<Longrightarrow> handledAt (seg @ new) i (RangeEdit err)"
proof -
  assume h: "handledAt seg i (RangeEdit err)" and i: "i < length seg"
  from h have r: "reportedAt seg i err" by simp
  from h obtain j where j: "i < j" "j < length seg" "isQuadletPrompt (seg ! j)" by auto
  then have "i < j \<and> j < length (seg @ new) \<and> isQuadletPrompt ((seg @ new) ! j)"
    by (simp add: nth_append)
  then have "\<exists>j. i < j \<and> j < length (seg @ new) \<and> isQuadletPrompt ((seg @ new) ! j)" ..
  with r show ?thesis by (simp add: reportedAt_append)
qed

lemma prompted_append:
  assumes "prompted h tr0 tr"
    and "\<And>k. k < length new \<Longrightarrow> mutationFailure h (tr @ take k new) (new ! k) = None"
  shows "prompted h tr0 (tr @ new)"
proof -
  from assms(1) obtain seg where seg: "tr = tr0 @ seg"
    and q: "\<forall>i<length seg. \<forall>f. mutationFailure h (tr0 @ take i seg) (seg ! i) = Some f \<longrightarrow>
            (\<exists>err. f = RangeEdit err \<and> handledAt seg i f)"
    by (auto simp: prompted_def)
  have "\<exists>err. f = RangeEdit err \<and> handledAt (seg @ new) i f"
    if "i < length (seg @ new)"
      and "mutationFailure h (tr0 @ take i (seg @ new)) ((seg @ new) ! i) = Some f" for i f
    using that(1)
  proof (cases rule: seg_index_cases)
    case old
    with that(2) have "mutationFailure h (tr0 @ take i seg) (seg ! i) = Some f"
      by (simp add: nth_append)
    with q old obtain err where f: "f = RangeEdit err" and "handledAt seg i (RangeEdit err)"
      by blast
    from this(2) old have "handledAt (seg @ new) i (RangeEdit err)"
      by (rule handledAt_range_append)
    with f show ?thesis by blast
  next
    case (new k)
    with assms(2) [of k] seg that(2) show ?thesis by (simp add: nth_append)
  qed
  with seg show ?thesis
    unfolding prompted_def by (intro exI [of _ "seg @ new"]) simp
qed

lemma prompted_snoc:
  "mutationFailure h tr e = None \<Longrightarrow> prompted h tr0 tr \<Longrightarrow> prompted h tr0 (tr @ [e])"
  by (rule prompted_append) simp_all

lemma pending_prompt:
  assumes "pending h tr0 tr" and "isQuadletPrompt e"
  shows "prompted h tr0 (tr @ [e])"
proof -
  from assms(1) obtain seg where seg: "tr = tr0 @ seg"
    and q: "\<forall>i<length seg. \<forall>f. mutationFailure h (tr0 @ take i seg) (seg ! i) = Some f \<longrightarrow>
            (\<exists>err. f = RangeEdit err \<and> reportedAt seg i err)"
    by (auto simp: pending_def)
  from assms(2) have e: "mutationFailure h tr e = None" by (cases e) simp_all
  have "\<exists>err. f = RangeEdit err \<and> handledAt (seg @ [e]) i f"
    if "i < length (seg @ [e])"
      and "mutationFailure h (tr0 @ take i (seg @ [e])) ((seg @ [e]) ! i) = Some f" for i f
    using that(1)
  proof (cases rule: seg_index_cases)
    case old
    with that(2) have "mutationFailure h (tr0 @ take i seg) (seg ! i) = Some f"
      by (simp add: nth_append)
    with q old obtain err where f: "f = RangeEdit err" and r: "reportedAt seg i err" by blast
    from old assms(2) have "\<exists>j. i < j \<and> j < length (seg @ [e]) \<and> isQuadletPrompt ((seg @ [e]) ! j)"
      by (intro exI [of _ "length seg"]) simp
    with f r show ?thesis by (auto intro: reportedAt_append)
  next
    case (new k)
    with e seg that(2) show ?thesis by (simp add: nth_append)
  qed
  with seg show ?thesis
    unfolding prompted_def by (intro exI [of _ "seg @ [e]"]) simp
qed

lemma pending_report:
  assumes "pending h tr0 tr"
    and "execOracle h tr ''sudo'' [''bash'', ''-c'', c] 10000 = Failed err"
    and "fname = ''subuid'' \<or> fname = ''subgid''"
    and "(\<exists>usr. c = ''sed -i '' @ sq @ ''s/^'' @ usr @ '':.*/'' @ desired @ ''/'' @ sq @
                    '' /etc/'' @ fname) \<or>
         c = ''echo '' @ sq @ desired @ sq @ '' >> /etc/'' @ fname"
  shows "pending h tr0
           (tr @ [Exec ''sudo'' [''bash'', ''-c'', c] 10000,
                  Error (''Failed to set '' @ fname @ '': '' @ err),
                  Log (''Set manually:'' @ nl @ ''  echo '' @ sq @ desired @ sq @
                       '' | sudo tee -a /etc/'' @ fname)])"
proof -
  let ?new = "[Exec ''sudo'' [''bash'', ''-c'', c] 10000,
               Error (''Failed to set '' @ fname @ '': '' @ err),
               Log (''Set manually:'' @ nl @ ''  echo '' @ sq @ desired @ sq @
                    '' | sudo tee -a /etc/'' @ fname)]"
  from assms(1) obtain seg where seg: "tr = tr0 @ seg"
    and q: "\<forall>i<length seg. \<forall>f. mutationFailure h (tr0 @ take i seg) (seg ! i) = Some f \<longrightarrow>
            (\<exists>err. f = RangeEdit err \<and> reportedAt seg i err)"
    by (auto simp: pending_def)
  have rep: "reportedAt (seg @ ?new) (length seg) err"
    unfolding reportedAt_def
    using assms(3,4)
    by (intro exI [where x = "fname"] exI [where x = "desired"]) (simp add: nth_append)
  have "\<exists>err. f = RangeEdit err \<and> reportedAt (seg @ ?new) i err"
    if "i < length (seg @ ?new)"
      and "mutationFailure h (tr0 @ take i (seg @ ?new)) ((seg @ ?new) ! i) = Some f" for i f
    using that(1)
  proof (cases rule: seg_index_cases)
    case old
    with that(2) have "mutationFailure h (tr0 @ take i seg) (seg ! i) = Some f"
      by (simp add: nth_append)
    with q old obtain e where "f = RangeEdit e" "reportedAt seg i e" by blast
    then show ?thesis by (auto intro: reportedAt_append)
  next
    case (new k)
    from new(2) have "k = 0 \<or> k = 1 \<or> k = 2" by auto
    then show ?thesis
    proof (elim disjE)
      assume "k = 0"
      with new that(2) seg assms(2) have "f = RangeEdit err" by (simp add: nth_append)
      with new \<open>k = 0\<close> rep show ?thesis by simp
    next
      assume "k = 1"
      with new that(2) show ?thesis by (simp add: nth_append)
    next
      assume "k = 2"
      with new that(2) show ?thesis by (simp add: nth_append)
    qed
  qed
  with seg show ?thesis
    unfolding pending_def by (intro exI [of _ "seg @ ?new"]) simp
qed

lemma handled_final:
  assumes "prompted h tr0 tr"
    and "mutationFailure h tr e = Some f"
    and "\<And>seg. handledAt (seg @ e # rest) (length seg) f"
    and "\<And>k. k < length rest \<Longrightarrow> mutationFailure h (tr @ e # take k rest) (rest ! k) = None"
  shows "handled h tr0 (tr @ e # rest)"
proof -
  from assms(1) obtain seg where seg: "tr = tr0 @ seg"
    and q: "\<forall>i<length seg. \<forall>f. mutationFailure h (tr0 @ take i seg) (seg ! i) = Some f \<longrightarrow>
            (\<exists>err. f = RangeEdit err \<and> handledAt seg i f)"
    by (auto simp: prompted_def)
  let ?new = "e # rest"
  have "handledAt (seg @ ?new) i g"
    if "i < length (seg @ ?new)"
      and "mutationFailure h (tr0 @ take i (seg @ ?new)) ((seg @ ?new) ! i) = Some g" for i g
    using that(1)
  proof (cases rule: seg_index_cases)
    case old
    with that(2) have "mutationFailure h (tr0 @ take i seg) (seg ! i) = Some g"
      by (simp add: nth_append)
    with q old obtain err where g: "g = RangeEdit err" and "handledAt seg i (RangeEdit err)"
      by blast
    from this(2) old have "handledAt (seg @ ?new) i (RangeEdit err)"
      by (rule handledAt_range_append)
    with g show ?thesis by blast
  next
    case (new k)
    show ?thesis
    proof (cases k)
      case 0
      with new that(2) seg assms(2) have "g = f" by (simp add: nth_append)
      with new 0 assms(3) [of seg] show ?thesis by simp
    next
      case (Suc j)
      with new have "j < length rest" by simp
      from assms(4) [OF this] new Suc that(2) seg show ?thesis by (simp add: nth_append)
    qed
  qed
  with seg show ?thesis
    unfolding handled_def by (intro exI [of _ "seg @ ?new"]) simp
qed


lemma failure_ok:
  "execOracle h tr c a t = Stdout out \<Longrightarrow> mutationFailure h tr (Exec c a t) = None"
  by (simp split: option.splits)

lemma failure_other:
  "mutationKind c a t = None \<Longrightarrow> mutationFailure h tr (Exec c a t) = None"
  by simp

lemma calm_if:
  "(c \<Longrightarrow> calm h tr0 (snd a)) \<Longrightarrow> (\<not> c \<Longrightarrow> calm h tr0 (snd b)) \<Longrightarrow>
   calm h tr0 (snd (if c then a else b))"
  by simp

lemma calm_if':
  "(c \<Longrightarrow> calm h tr0 a) \<Longrightarrow> (\<not> c \<Longrightarrow> calm h tr0 b) \<Longrightarrow>
   calm h tr0 (if c then a else b)"
  by simp

lemma calm_pair: "calm h tr0 tr \<Longrightarrow> calm h tr0 (snd (x, tr))"
  by simp

lemma calm_runExec:
  "mutationKind c a t = None \<Longrightarrow> calm h tr0 tr \<Longrightarrow> calm h tr0 (snd (runExec h tr c a t))"
  by (simp add: runExec_def calm_snoc)

lemma calm_runExec_ok:
  "fst (runExec h tr c a t) = Stdout out \<Longrightarrow> calm h tr0 tr \<Longrightarrow>
   calm h tr0 (snd (runExec h tr c a t))"
  by (auto simp: runExec_def intro: calm_snoc failure_ok)

lemma calm_log: "calm h tr0 tr \<Longrightarrow> calm h tr0 (log tr m)"
  by (simp add: log_def calm_snoc)

lemma calm_error: "calm h tr0 tr \<Longrightarrow> calm h tr0 (error tr m)"
  by (simp add: error_def calm_snoc)

lemma calm_note: "calm h tr0 tr \<Longrightarrow> calm h tr0 (clackNote tr m t)"
  by (simp add: clackNote_def calm_snoc)

lemma calm_cancel: "calm h tr0 tr \<Longrightarrow> calm h tr0 (cancel tr m)"
  by (simp add: cancel_def calm_snoc)

lemma calm_clackText: "calm h tr0 tr \<Longrightarrow> calm h tr0 (snd (clackText h tr m i p))"
  by (simp add: clackText_def calm_snoc)

lemma calm_clackConfirm: "calm h tr0 tr \<Longrightarrow> calm h tr0 (snd (clackConfirm h tr m i))"
  by (simp add: clackConfirm_def calm_snoc)

lemma calm_grepSubid: "calm h tr0 tr \<Longrightarrow> calm h tr0 (snd (grepSubid h tr u f))"
  by (simp only: snd_grepSubid) (simp add: calm_runExec)

lemma calm_isBackendAvailable:
  "calm h tr0 tr \<Longrightarrow> calm h tr0 (snd (isBackendAvailable h tr b))"
  by (simp add: isBackendAvailable_def case_prod_beta calm_runExec)

lemma calm_detectQuadlet:
  "calm h tr0 tr \<Longrightarrow> calm h tr0 (snd (detectQuadlet h tr u c))"
  by (auto simp: detectQuadlet_def Let_def case_prod_beta calm_runExec
           split: execResult.splits)

lemma calm_checkSubids:
  "calm h tr0 tr \<Longrightarrow> calm h tr0 (snd (checkSubids h tr u))"
  by (simp add: checkSubids_def case_prod_beta calm_grepSubid)

lemma kind_not_sudo: "c \<noteq> ''sudo'' \<Longrightarrow> mutationKind c a t = None"
  by (cases "(c, a, t)" rule: mutationKind.cases) auto

lemma calm_id: "calm h tr0 tr \<Longrightarrow> calm h tr0 (snd (runExec h tr ''id'' a t))"
  by (simp add: calm_runExec kind_not_sudo)

lemmas calm_intros =
  calm_if calm_if' calm_pair calm_log calm_error calm_note calm_clackText calm_clackConfirm
  calm_grepSubid calm_isBackendAvailable calm_detectQuadlet calm_checkSubids calm_id

lemma calm_detectPodmanHost:
  "calm h tr0 tr \<Longrightarrow> calm h tr0 (snd (detectPodmanHost h tr))"
  apply (simp only: detectPodmanHost_def Let_def case_prod_beta snd_conv)
  apply (intro calm_intros calm_runExec; (assumption | simp))
  done


lemma stepHandled_if:
  "(c \<Longrightarrow> stepHandled h tr0 a) \<Longrightarrow> (\<not> c \<Longrightarrow> stepHandled h tr0 b) \<Longrightarrow>
   stepHandled h tr0 (if c then a else b)"
  by simp

lemma stepHandled_answer_case:
  "(a = Cancelled \<Longrightarrow> stepHandled h tr0 c) \<Longrightarrow>
   (\<And>x. a = Answered x \<Longrightarrow> stepHandled h tr0 (f x)) \<Longrightarrow>
   stepHandled h tr0 (case a of Cancelled \<Rightarrow> c | Answered x \<Rightarrow> f x)"
  by (cases a) auto

lemma stepHandled_exec_case:
  "(\<And>err. r = Failed err \<Longrightarrow> stepHandled h tr0 (f err)) \<Longrightarrow>
   (\<And>out. r = Stdout out \<Longrightarrow> stepHandled h tr0 (g out)) \<Longrightarrow>
   stepHandled h tr0 (case r of Failed err \<Rightarrow> f err | Stdout out \<Rightarrow> g out)"
  by (cases r) auto

lemma stepHandled_Return: "handled h tr0 t \<Longrightarrow> stepHandled h tr0 (Return t)"
  by (simp add: stepHandled_def)

lemma stepHandled_Continue: "calm h tr0 t \<Longrightarrow> stepHandled h tr0 (Continue t)"
  by (simp add: stepHandled_def)

lemma handled_useradd:
  assumes "fst (runExec h tr ''sudo'' [''useradd'', ''-m'', ''-s'', ''/usr/sbin/nologin'', u] 30000)
             = Failed err"
    and "calm h tr0 tr"
  shows "handled h tr0
           (log (error (snd (runExec h tr ''sudo''
                               [''useradd'', ''-m'', ''-s'', ''/usr/sbin/nologin'', u] 30000))
                   (''Failed to create user: '' @ err))
              ''Create the user manually and re-run this command.'')"
proof -
  from assms(1) have f: "mutationFailure h tr
      (Exec ''sudo'' [''useradd'', ''-m'', ''-s'', ''/usr/sbin/nologin'', u] 30000)
        = Some (UserCreation err)"
    by (simp add: runExec_def)
  from assms(2) have "prompted h tr0 tr" by (rule calm_prompted)
  from this f have "handled h tr0
     (tr @ Exec ''sudo'' [''useradd'', ''-m'', ''-s'', ''/usr/sbin/nologin'', u] 30000 #
        [Error (''Failed to create user: '' @ err),
         Log ''Create the user manually and re-run this command.''])"
  proof (rule handled_final)
    fix k :: nat
    assume "k < length [Error (''Failed to create user: '' @ err),
                        Log ''Create the user manually and re-run this command.'']"
    then have "k = 0 \<or> k = 1" by auto
    then show "mutationFailure h
        (tr @ Exec ''sudo'' [''useradd'', ''-m'', ''-s'', ''/usr/sbin/nologin'', u] 30000 #
           take k [Error (''Failed to create user: '' @ err),
                   Log ''Create the user manually and re-run this command.''])
        ([Error (''Failed to create user: '' @ err),
          Log ''Create the user manually and re-run this command.''] ! k) = None"
      by auto
  qed simp
  then show ?thesis by (simp add: runExec_def log_def error_def)
qed

lemma stepHandled_ensureUser:
  "calm h tr0 tr \<Longrightarrow> stepHandled h tr0 (ensureUser h info l u tr)"
  apply (simp only: ensureUser_def Let_def case_prod_beta)
  apply (intro stepHandled_if stepHandled_answer_case stepHandled_exec_case
               stepHandled_Return stepHandled_Continue)
       apply (rule calm_handled, rule calm_cancel, (intro calm_intros; assumption))
      apply (rule handled_useradd, assumption, (intro calm_intros; assumption))
     apply (rule calm_runExec, simp, rule calm_log, rule calm_runExec_ok, assumption,
            (intro calm_intros; assumption))
    apply (intro calm_intros; assumption)
   apply (intro calm_intros; assumption)
  apply assumption
  done


lemma pending_log: "pending h tr0 tr \<Longrightarrow> pending h tr0 (log tr m)"
  by (simp add: log_def pending_snoc)

lemma pending_note: "pending h tr0 tr \<Longrightarrow> pending h tr0 (clackNote tr m t)"
  by (simp add: clackNote_def pending_snoc)

lemma pending_ok:
  assumes "execOracle h tr c a t = Stdout out" and "pending h tr0 tr"
  shows "pending h tr0 (tr @ [Exec c a t, Log m])"
proof -
  from assms(1) have "mutationFailure h tr (Exec c a t) = None"
    by (rule failure_ok)
  with assms(2) have "pending h tr0 (tr @ [Exec c a t])"
    by (rule pending_snoc [rotated])
  then have "pending h tr0 ((tr @ [Exec c a t]) @ [Log m])"
    by (rule pending_snoc [rotated]) simp
  then show ?thesis by simp
qed

lemma pending_applySubuid:
  assumes p: "pending h tr0 tr"
  shows "pending h tr0 (applySubuid h u s d tr)"
proof (cases "\<not> hasSubuid s \<or> subuidRange s \<noteq> Some d")
  case False
  with p show ?thesis by (simp add: applySubuid_def pending_log)
next
  case change: True
  let ?sed = "''sed -i '' @ sq @ ''s/^'' @ u @ '':.*/'' @ d @ ''/'' @ sq @ '' /etc/subuid''"
  let ?echo = "''echo '' @ sq @ d @ sq @ '' >> /etc/subuid''"
  show ?thesis
  proof (cases "hasSubuid s")
    case True
    show ?thesis
    proof (cases "execOracle h tr ''sudo'' [''bash'', ''-c'', ?sed] 10000")
      case (Failed err)
      from pending_report [OF p Failed, where fname = "''subuid''" and desired = d]
      show ?thesis using Failed True change
        by (simp add: applySubuid_def runExec_def log_def error_def)
    next
      case (Stdout out)
      from pending_ok [OF Stdout p, of "''subuid: '' @ d"]
      show ?thesis using Stdout True change
        by (simp add: applySubuid_def runExec_def log_def)
    qed
  next
    case False
    show ?thesis
    proof (cases "execOracle h tr ''sudo'' [''bash'', ''-c'', ?echo] 10000")
      case (Failed err)
      from pending_report [OF p Failed, where fname = "''subuid''" and desired = d]
      show ?thesis using Failed False
        by (simp add: applySubuid_def runExec_def log_def error_def)
    next
      case (Stdout out)
      from pending_ok [OF Stdout p, of "''subuid: '' @ d"]
      show ?thesis using Stdout False
        by (simp add: applySubuid_def runExec_def log_def)
    qed
  qed
qed

lemma pending_applySubgid:
  assumes p: "pending h tr0 tr"
  shows "pending h tr0 (applySubgid h u s d tr)"
proof (cases "\<not> hasSubgid s \<or> subgidRange s \<noteq> Some d")
  case False
  with p show ?thesis by (simp add: applySubgid_def pending_log)
next
  case change: True
  let ?sed = "''sed -i '' @ sq @ ''s/^'' @ u @ '':.*/'' @ d @ ''/'' @ sq @ '' /etc/subgid''"
  let ?echo = "''echo '' @ sq @ d @ sq @ '' >> /etc/subgid''"
  show ?thesis
  proof (cases "hasSubgid s")
    case True
    show ?thesis
    proof (cases "execOracle h tr ''sudo'' [''bash'', ''-c'', ?sed] 10000")
      case (Failed err)
      from pending_report [OF p Failed, where fname = "''subgid''" and desired = d]
      show ?thesis using Failed True change
        by (simp add: applySubgid_def runExec_def log_def error_def)
    next
      case (Stdout out)
      from pending_ok [OF Stdout p, of "''subgid: '' @ d"]
      show ?thesis using Stdout True change
        by (simp add: applySubgid_def runExec_def log_def)
    qed
  next
    case False
    show ?thesis
    proof (cases "execOracle h tr ''sudo'' [''bash'', ''-c'', ?echo] 10000")
      case (Failed err)
      from pending_report [OF p Failed, where fname = "''subgid''" and desired = d]
      show ?thesis using Failed False
        by (simp add: applySubgid_def runExec_def log_def error_def)
    next
      case (Stdout out)
      from pending_ok [OF Stdout p, of "''subgid: '' @ d"]
      show ?thesis using Stdout False
        by (simp add: applySubgid_def runExec_def log_def)
    qed
  qed
qed

lemma pending_applySubidRanges:
  "pending h tr0 tr \<Longrightarrow> pending h tr0 (applySubidRanges h l u s a b tr)"
  by (simp add: applySubidRanges_def Let_def pending_applySubuid pending_applySubgid
        pending_log)


lemma prompted_runExec:
  "mutationKind c a t = None \<Longrightarrow> prompted h tr0 tr \<Longrightarrow>
   prompted h tr0 (snd (runExec h tr c a t))"
  by (simp add: runExec_def prompted_snoc)

lemma prompted_runExec_ok:
  "fst (runExec h tr c a t) = Stdout out \<Longrightarrow> prompted h tr0 tr \<Longrightarrow>
   prompted h tr0 (snd (runExec h tr c a t))"
  by (auto simp: runExec_def intro: prompted_snoc failure_ok)

lemma prompted_log: "prompted h tr0 tr \<Longrightarrow> prompted h tr0 (log tr m)"
  by (simp add: log_def prompted_snoc)

lemma prompted_error: "prompted h tr0 tr \<Longrightarrow> prompted h tr0 (error tr m)"
  by (simp add: error_def prompted_snoc)

lemma prompted_cancel: "prompted h tr0 tr \<Longrightarrow> prompted h tr0 (cancel tr m)"
  by (simp add: cancel_def prompted_snoc)

lemma handled_exec_case:
  "(\<And>err. r = Failed err \<Longrightarrow> handled h tr0 (f err)) \<Longrightarrow>
   (\<And>out. r = Stdout out \<Longrightarrow> handled h tr0 (g out)) \<Longrightarrow>
   handled h tr0 (case r of Failed err \<Rightarrow> f err | Stdout out \<Rightarrow> g out)"
  by (cases r) auto

lemma handled_answer_case:
  "(a = Cancelled \<Longrightarrow> handled h tr0 c) \<Longrightarrow>
   (\<And>x. a = Answered x \<Longrightarrow> handled h tr0 (f x)) \<Longrightarrow>
   handled h tr0 (case a of Cancelled \<Rightarrow> c | Answered x \<Rightarrow> f x)"
  by (cases a) auto

lemma handled_if:
  "(c \<Longrightarrow> handled h tr0 a) \<Longrightarrow> (\<not> c \<Longrightarrow> handled h tr0 b) \<Longrightarrow>
   handled h tr0 (if c then a else b)"
  by simp

lemma handled_install:
  assumes "fst (runExec h tr c a t) = Failed err"
    and "mutationKind c a t = Some UnitInstall"
    and "prompted h tr0 tr"
  shows "handled h tr0
           (error (snd (runExec h tr c a t)) (''Failed to install Quadlet unit: '' @ err))"
proof -
  from assms(1,2) have f: "mutationFailure h tr (Exec c a t) = Some (UnitInstall err)"
    by (simp add: runExec_def)
  from assms(3) f have "handled h tr0
     (tr @ Exec c a t # [Error (''Failed to install Quadlet unit: '' @ err)])"
    by (rule handled_final) simp_all
  then show ?thesis by (simp add: runExec_def error_def)
qed

lemma handled_reload:
  assumes "fst (runExec h tr c a t) = Failed err"
    and "mutationKind c a t = Some UnitReload"
    and "prompted h tr0 tr"
  shows "handled h tr0 (log (snd (runExec h tr c a t)) (reloadManually p u))"
proof -
  from assms(1,2) have f: "mutationFailure h tr (Exec c a t) = Some (UnitReload err)"
    by (simp add: runExec_def)
  from assms(3) f have "handled h tr0 (tr @ Exec c a t # [Log (reloadManually p u)])"
    by (rule handled_final) auto
  then show ?thesis by (simp add: runExec_def log_def)
qed

lemma handled_installQuadletUnit:
  "prompted h tr0 tr \<Longrightarrow> handled h tr0 (installQuadletUnit h u tr)"
  apply (simp only: installQuadletUnit_def Let_def case_prod_beta)
  apply (rule handled_exec_case)
   apply (rule prompted_handled, rule prompted_error, rule prompted_runExec, simp, assumption)
  apply (rule handled_exec_case)
   apply (rule handled_install, assumption, simp, rule prompted_runExec, simp, assumption)
  apply (rule handled_exec_case)
   apply (rule handled_install, assumption, simp,
          rule prompted_runExec_ok, assumption, rule prompted_runExec, simp, assumption)
  apply (rule handled_exec_case)
   apply (rule handled_reload, assumption, simp,
          rule prompted_runExec_ok, assumption,
          rule prompted_runExec_ok, assumption, rule prompted_runExec, simp, assumption)
  apply (rule handled_exec_case)
   apply (rule handled_reload, assumption, simp,
          rule prompted_runExec_ok, assumption,
          rule prompted_runExec_ok, assumption,
          rule prompted_runExec_ok, assumption, rule prompted_runExec, simp, assumption)
  apply (rule prompted_handled, rule prompted_log,
         rule prompted_runExec_ok, assumption,
         rule prompted_runExec_ok, assumption,
         rule prompted_runExec_ok, assumption,
         rule prompted_runExec_ok, assumption, rule prompted_runExec, simp, assumption)
  done

lemma prompted_clackSelectQuadlet:
  "pending h tr0 tr \<Longrightarrow> prompted h tr0 (snd (clackSelectQuadlet h tr m os i))"
  by (simp add: clackSelectQuadlet_def pending_prompt)

lemma pending_if':
  "(c \<Longrightarrow> pending h tr0 a) \<Longrightarrow> (\<not> c \<Longrightarrow> pending h tr0 b) \<Longrightarrow>
   pending h tr0 (if c then a else b)"
  by simp

lemma handled_setupQuadlet:
  assumes "pending h tr0 tr"
  shows "handled h tr0 (setupQuadlet h info l u tr)"
proof -
  have p: "prompted h tr0 (snd (clackSelectQuadlet h
              (if \<not> systemdAvailable info then clackNote tr m t else tr) q os i))"
    for m t q os i
    by (intro prompted_clackSelectQuadlet pending_if' pending_note assms)
  show ?thesis
    apply (simp only: setupQuadlet_def Let_def case_prod_beta)
    apply (intro handled_answer_case handled_if)
       apply (rule prompted_handled, rule prompted_cancel, rule p)
      apply (rule handled_installQuadletUnit, rule p)
     apply (rule prompted_handled, (rule prompted_log)+, rule p)
    apply (rule prompted_handled, rule p)
    done
qed

lemma handled_setupSubids:
  assumes "calm h tr0 tr"
  shows "handled h tr0 (setupSubids h info l u tr)"
proof -
  have c1: "calm h tr0 (snd (if l then checkSubids h tr u else (x, tr)))" for x
    by (intro calm_intros assms)
  show ?thesis
    apply (simp only: setupSubids_def Let_def case_prod_beta)
    apply (intro handled_answer_case)
      apply (rule calm_handled, rule calm_cancel, rule calm_clackText, rule c1)
     apply (rule calm_handled, rule calm_cancel, rule calm_clackText, rule calm_clackText,
            rule c1)
    apply (rule handled_setupQuadlet, rule pending_applySubidRanges, rule calm_pending,
           rule calm_clackText, rule calm_clackText, rule c1)
    done
qed

lemma handled_runPodmanSetup:
  assumes "calm h tr0 tr"
  shows "handled h tr0 (runPodmanSetup h tr)"
proof -
  have step: "handled h tr0
      (case ensureUser h info l u t of Return t' \<Rightarrow> t' | Continue t' \<Rightarrow> setupSubids h info l u t')"
    if "calm h tr0 t" for info l u t
    using stepHandled_ensureUser [OF that, of info l u]
    by (auto simp: stepHandled_def split: step.splits intro: handled_setupSubids)
  show ?thesis
    apply (simp only: runPodmanSetup_def Let_def case_prod_beta)
    apply (rule handled_answer_case)
     apply (rule calm_handled, rule calm_cancel, rule calm_clackText)
     apply (intro calm_intros calm_detectPodmanHost assms)
    apply (rule step)
    apply (rule calm_clackText)
    apply (intro calm_intros calm_detectPodmanHost assms)
    done
qed

text \<open>
  Claim C5, amended. Every failed host mutation of a run of the provisioning wizard is
  dealt with as follows, and the trace the wizard leaves extends the trace it was given.
  A failed edit or append of a subordinate range is followed by the error that names the
  file and by the log of the literal manual command (the append of the desired line with
  \<open>sudo tee -a\<close>), and the wizard goes on: the prompt for the unit comes later in the
  trace. A failed creation of the user is followed by the error and the request to
  create the user manually and run the command again, and the wizard ends there. A
  failed command of the unit file is followed by the error alone, a failed reload or
  enable by the log of the two manual \<open>systemctl\<close> commands; these end the run, the
  install being its last step.
\<close>

theorem runPodmanSetup_failures:
  "\<exists>seg. runPodmanSetup h tr0 = tr0 @ seg \<and>
     (\<forall>i<length seg. \<forall>f. mutationFailure h (tr0 @ take i seg) (seg ! i) = Some f
         \<longrightarrow> handledAt seg i f)"
  using handled_runPodmanSetup [OF calm_refl, of h tr0] by (simp add: handled_def)

text \<open>
  The operator names the user \<open>bob\<close>, who does not exist, and confirms the creation;
  \<open>sudo useradd\<close> fails. The error is followed by the request to create the user
  manually, which names no command, and the wizard returns: no range prompt and no
  unit prompt follow.
\<close>

theorem useradd_failure_counterexample:
  "runPodmanSetup bobHost [] =
     [Exec ''podman'' [''version''] 5000,
      Exec ''id'' [''-u'', ''openclaw''] 3000,
      Exec ''grep'' [''^alice:'', ''/etc/subuid''] 3000,
      Exec ''grep'' [''^alice:'', ''/etc/subgid''] 3000,
      Exec ''id'' [''-u'', ''alice''] 3000,
      Exec ''systemctl'' [''--version''] 3000,
      Exec ''test'' [''-f'', ''/home/alice/.config/containers/systemd/openclaw.container''] 3000,
      Note (''Platform:  linux'' @ nl @ ''Podman:    installed'' @ nl @ ''User:      alice'' @ nl @
            ''subuid:    alice:100000:65536'' @ nl @ ''subgid:    alice:100000:65536'' @ nl @
            ''Quadlet:   not installed'') ''Podman host detection'',
      TextPrompt ''Podman user for sandbox containers'' ''alice'' ''alice'',
      Exec ''id'' [''-u'', ''bob''] 3000,
      ConfirmPrompt (''User '' @ dq @ ''bob'' @ dq @ '' does not exist. Create it? (requires sudo)'')
        True,
      Exec ''sudo'' [''useradd'', ''-m'', ''-s'', ''/usr/sbin/nologin'', ''bob''] 30000,
      Error ''Failed to create user: sudo: a password is required'',
      Log ''Create the user manually and re-run this command.'']"
  by (simp add: wizard_defs bobHost_def demoHost_def demoExec_def)

lemma range_run:
  "runPodmanSetup rangeHost [] =
     [Exec ''podman'' [''version''] 5000,
      Exec ''id'' [''-u'', ''openclaw''] 3000,
      Exec ''grep'' [''^alice:'', ''/etc/subuid''] 3000,
      Exec ''grep'' [''^alice:'', ''/etc/subgid''] 3000,
      Exec ''id'' [''-u'', ''alice''] 3000,
      Exec ''systemctl'' [''--version''] 3000,
      Exec ''test'' [''-f'', ''/home/alice/.config/containers/systemd/openclaw.container''] 3000,
      Note (''Platform:  linux'' @ nl @ ''Podman:    installed'' @ nl @ ''User:      alice'' @ nl @
            ''subuid:    alice:100000:65536'' @ nl @ ''subgid:    alice:100000:65536'' @ nl @
            ''Quadlet:   not installed'') ''Podman host detection'',
      TextPrompt ''Podman user for sandbox containers'' ''alice'' ''alice'',
      Exec ''grep'' [''^alice:'', ''/etc/subuid''] 3000,
      Exec ''grep'' [''^alice:'', ''/etc/subgid''] 3000,
      TextPrompt (''Subordinate UID range for '' @ dq @ ''alice'' @ dq @ '' (start:count)'')
        ''100000:65536'' ''100000:65536'',
      TextPrompt (''Subordinate GID range for '' @ dq @ ''alice'' @ dq @ '' (start:count)'')
        ''100000:65536'' ''100000:65536'',
      Exec ''sudo'' [''bash'', ''-c'',
                     ''sed -i '' @ sq @ ''s/^alice:.*/alice:200000:65536/'' @ sq @ '' /etc/subuid'']
        10000,
      Error ''Failed to set subuid: sudo: a password is required'',
      Log (''Set manually:'' @ nl @ ''  echo '' @ sq @ ''alice:200000:65536'' @ sq @
           '' | sudo tee -a /etc/subuid''),
      Log ''subgid: alice:100000:65536 (unchanged)'',
      SelectQuadlet ''Quadlet systemd unit (optional, currently not installed)''
        [(skip, ''Skip'', ''Do not install''),
         (install, ''Install'', ''Install/overwrite rootless Podman user service'')]
        skip]"
  by (simp add: wizard_defs rangeHost_def demoHost_def demoExec_def)

text \<open>
  On the host whose operator asks for the UID range \<open>200000:65536\<close> the edit of
  \<open>/etc/subuid\<close>, the fourteenth event of the run, fails: it is reported with the manual
  command, and the run goes on to the GID block and the unit prompt.
\<close>

theorem runPodmanSetup_failures_witness:
  "mutationFailure rangeHost (take 13 (runPodmanSetup rangeHost []))
     (runPodmanSetup rangeHost [] ! 13) = Some (RangeEdit ''sudo: a password is required'') \<and>
   handledAt (runPodmanSetup rangeHost []) 13 (RangeEdit ''sudo: a password is required'')"
proof -
  let ?T = "runPodmanSetup rangeHost []"
  let ?f = "RangeEdit ''sudo: a password is required''"
  have f: "mutationFailure rangeHost (take 13 ?T) (?T ! 13) = Some ?f"
    unfolding range_run by (simp add: rangeHost_def demoHost_def demoExec_def)
  from runPodmanSetup_failures [of rangeHost "[]"]
  have "\<forall>i<length ?T. \<forall>f. mutationFailure rangeHost (take i ?T) (?T ! i) = Some f
          \<longrightarrow> handledAt ?T i f"
    by simp
  moreover have "13 < length ?T" by (simp add: range_run)
  ultimately have "handledAt ?T 13 ?f"
    using f by blast
  with f show ?thesis by simp
qed

end
